theory Spec2Isabelle
  imports Complex_Main
begin

section \<open>Living Chronicle: the simulation kernel\<close>

text \<open>
  A shallow embedding of the simulation core of the repository (package
  \<^verbatim>\<open>chronicle.sim\<close> with the rows of \<^verbatim>\<open>chronicle.data.models\<close> and the
  tables of \<^verbatim>\<open>chronicle.data.database\<close>).

  Conventions.
  \<^item> Python \<^verbatim>\<open>float\<close> values are modelled by \<^typ>\<open>real\<close>, Python \<^verbatim>\<open>int\<close> by
    \<^typ>\<open>int\<close>, \<^verbatim>\<open>str\<close> by \<^typ>\<open>string\<close>.
  \<^item> Mutation is explicit state passing.  A function that may raise returns the state
    reached when the exception left it together with \<open>Inl\<close> of the error.
  \<^item> \<^verbatim>\<open>random.Random\<close> belongs to the Python standard library, not to the
    repository.  Its generator state is a type parameter \<open>'g\<close> and the methods the
    kernel calls are the fields of a record of operations that every function takes.
\<close>

subsection \<open>Errors\<close>

datatype error = KeyError string | ValueError string | IntegrityError string | NarratorError

subsection \<open>The pseudorandom stream\<close>

text \<open>
  \<open>rng_new seed\<close> is \<^verbatim>\<open>random.Random(seed)\<close>; \<open>rng_random\<close>, \<open>rng_uniform a b\<close> and
  \<open>rng_randint a b\<close> are the methods of the same names.  \<open>rng_choice n\<close> is the index that
  \<^verbatim>\<open>choice\<close> picks in a sequence of length \<open>n\<close>, and \<open>rng_sample n k\<close> the indices that
  \<^verbatim>\<open>sample\<close> picks for \<open>k\<close> elements out of \<open>n\<close>.
\<close>

record 'g rng_ops =
  rng_new :: "int \<Rightarrow> 'g"
  rng_random :: "'g \<Rightarrow> real \<times> 'g"
  rng_uniform :: "real \<Rightarrow> real \<Rightarrow> 'g \<Rightarrow> real \<times> 'g"
  rng_randint :: "int \<Rightarrow> int \<Rightarrow> 'g \<Rightarrow> int \<times> 'g"
  rng_choice :: "nat \<Rightarrow> 'g \<Rightarrow> nat \<times> 'g"
  rng_sample :: "nat \<Rightarrow> nat \<Rightarrow> 'g \<Rightarrow> nat list \<times> 'g"

definition choice :: "'g rng_ops \<Rightarrow> 'a list \<Rightarrow> 'g \<Rightarrow> 'a \<times> 'g" where
  "choice ops xs g = (let (i, g') = rng_choice ops (length xs) g in (xs ! i, g'))"

definition sample :: "'g rng_ops \<Rightarrow> 'a list \<Rightarrow> nat \<Rightarrow> 'g \<Rightarrow> 'a list \<times> 'g" where
  "sample ops xs k g = (let (is, g') = rng_sample ops (length xs) k g in (map (\<lambda>i. xs ! i) is, g'))"

text \<open>The documented contracts of the library methods, used as hypotheses where a
  property depends on them.\<close>

definition randint_in_range :: "'g rng_ops \<Rightarrow> bool" where
  "randint_in_range ops =
     (\<forall>a b g. a \<le> b \<longrightarrow> a \<le> fst (rng_randint ops a b g) \<and> fst (rng_randint ops a b g) \<le> b)"

definition uniform_in_range :: "'g rng_ops \<Rightarrow> bool" where
  "uniform_in_range ops =
     (\<forall>a b g. a \<le> b \<longrightarrow> a \<le> fst (rng_uniform ops a b g) \<and> fst (rng_uniform ops a b g) \<le> b)"

text \<open>A concrete stream for evaluation: the state counts the draws, every draw returns
  the lower end of its range, and a choice in a sequence of length \<open>n\<close> takes the index
  (number of draws so far) modulo \<open>n\<close>.\<close>

definition count_rng :: "nat rng_ops" where
  "count_rng = \<lparr> rng_new = (\<lambda>seed. 0),
                 rng_random = (\<lambda>g. (0, Suc g)),
                 rng_uniform = (\<lambda>a b g. (a, Suc g)),
                 rng_randint = (\<lambda>a b g. (a, Suc g)),
                 rng_choice = (\<lambda>n g. (g mod n, Suc g)),
                 rng_sample = (\<lambda>n k g. ([0..<k], Suc g)) \<rparr>"

subsection \<open>Ages (\<^verbatim>\<open>sim/ages.py\<close>)\<close>

datatype age = EMERGENCE | ORDER | STRAIN | COLLAPSE | SILENCE | REBIRTH

fun age_value :: "age \<Rightarrow> string" where
  "age_value EMERGENCE = ''Emergence''"
| "age_value ORDER = ''Order''"
| "age_value STRAIN = ''Strain''"
| "age_value COLLAPSE = ''Collapse''"
| "age_value SILENCE = ''Silence''"
| "age_value REBIRTH = ''Rebirth''"

definition age_cycle :: "age list" where
  "age_cycle = [EMERGENCE, ORDER, STRAIN, COLLAPSE, SILENCE, REBIRTH]"

text \<open>\<^verbatim>\<open>Age(age_name)\<close>: the member with that value, \<^verbatim>\<open>ValueError\<close> when there is none.\<close>

definition age_of_value :: "string \<Rightarrow> error + age" where
  "age_of_value s = (case find (\<lambda>a. age_value a = s) age_cycle of
                       None \<Rightarrow> Inl (ValueError s) | Some a \<Rightarrow> Inr a)"

fun index_of :: "'a list \<Rightarrow> 'a \<Rightarrow> nat" where
  "index_of [] y = 0"
| "index_of (x # xs) y = (if x = y then 0 else Suc (index_of xs y))"

definition age_next :: "age \<Rightarrow> age" where
  "age_next a = age_cycle ! ((index_of age_cycle a + 1) mod length age_cycle)"

record age_traits =
  min_days :: int
  max_days :: int
  event_rate :: real
  belief_growth :: real
  fear_modifier :: real
  gratitude_modifier :: real

fun AGE_TRAITS :: "age \<Rightarrow> age_traits" where
  "AGE_TRAITS EMERGENCE = \<lparr> min_days = 20, max_days = 40, event_rate = 6/10,
      belief_growth = 12/10, fear_modifier = 3/10, gratitude_modifier = 7/10 \<rparr>"
| "AGE_TRAITS ORDER = \<lparr> min_days = 30, max_days = 60, event_rate = 4/10,
      belief_growth = 1, fear_modifier = 2/10, gratitude_modifier = 8/10 \<rparr>"
| "AGE_TRAITS STRAIN = \<lparr> min_days = 25, max_days = 45, event_rate = 7/10,
      belief_growth = 11/10, fear_modifier = 6/10, gratitude_modifier = 4/10 \<rparr>"
| "AGE_TRAITS COLLAPSE = \<lparr> min_days = 15, max_days = 30, event_rate = 9/10,
      belief_growth = 8/10, fear_modifier = 9/10, gratitude_modifier = 1/10 \<rparr>"
| "AGE_TRAITS SILENCE = \<lparr> min_days = 10, max_days = 25, event_rate = 2/10,
      belief_growth = 5/10, fear_modifier = 5/10, gratitude_modifier = 3/10 \<rparr>"
| "AGE_TRAITS REBIRTH = \<lparr> min_days = 15, max_days = 35, event_rate = 5/10,
      belief_growth = 13/10, fear_modifier = 4/10, gratitude_modifier = 6/10 \<rparr>"

text \<open>\<^verbatim>\<open>AgeManager\<close>.  Its \<^verbatim>\<open>rng\<close> field is the engine's generator object, so the
  generator state is passed in and out.\<close>

record age_manager =
  current_age :: age
  day_counter :: int
  age_duration :: int

definition am_new :: "'g rng_ops \<Rightarrow> 'g \<Rightarrow> age_manager \<times> 'g" where
  "am_new ops g =
     (let traits = AGE_TRAITS EMERGENCE;
          (duration, g') = rng_randint ops (min_days traits) (max_days traits) g
      in (\<lparr> current_age = EMERGENCE, day_counter = 0, age_duration = duration \<rparr>, g'))"

definition from_state :: "string \<Rightarrow> int \<Rightarrow> error + age_manager" where
  "from_state age_name counter =
     (case age_of_value age_name of
        Inl e \<Rightarrow> Inl e
      | Inr a \<Rightarrow>
          let traits = AGE_TRAITS a;
              duration = max (counter + 1) (min_days traits)
          in Inr \<lparr> current_age = a, day_counter = counter, age_duration = duration \<rparr>)"

definition am_transition :: "'g rng_ops \<Rightarrow> age_manager \<Rightarrow> 'g \<Rightarrow> age \<times> age_manager \<times> 'g" where
  "am_transition ops am g =
     (let a = age_next (current_age am);
          traits = AGE_TRAITS a;
          (duration, g') = rng_randint ops (min_days traits) (max_days traits) g
      in (a, \<lparr> current_age = a, day_counter = 0, age_duration = duration \<rparr>, g'))"

definition am_tick :: "'g rng_ops \<Rightarrow> age_manager \<Rightarrow> 'g \<Rightarrow> age option \<times> age_manager \<times> 'g" where
  "am_tick ops am g =
     (let am1 = am\<lparr> day_counter := day_counter am + 1 \<rparr>
      in if day_counter am1 \<ge> age_duration am1
         then (let (a, am2, g') = am_transition ops am1 g in (Some a, am2, g'))
         else (None, am1, g))"

text \<open>The life of one clock: it is advanced (between two advances the other components
  draw from the shared stream, so each advance meets an arbitrary generator state), or
  its pair (age name, day counter) is persisted and a clock is rebuilt from that pair.\<close>

datatype 'g clock_step = Advance 'g | Restore

fun clock_after :: "'g rng_ops \<Rightarrow> age_manager \<Rightarrow> 'g clock_step list \<Rightarrow> error + age_manager" where
  "clock_after ops am [] = Inr am"
| "clock_after ops am (Advance g # steps) = clock_after ops (fst (snd (am_tick ops am g))) steps"
| "clock_after ops am (Restore # steps) =
     (case from_state (age_value (current_age am)) (day_counter am) of
        Inl e \<Rightarrow> Inl e
      | Inr am' \<Rightarrow> clock_after ops am' steps)"

definition clock_in_bounds :: "age_manager \<Rightarrow> bool" where
  "clock_in_bounds am =
     (0 \<le> day_counter am \<and> day_counter am < age_duration am \<and>
      min_days (AGE_TRAITS (current_age am)) \<le> age_duration am \<and>
      age_duration am \<le> max_days (AGE_TRAITS (current_age am)))"

subsection \<open>Rows (\<^verbatim>\<open>data/models.py\<close>)\<close>

definition DOMAINS :: "string list" where
  "DOMAINS = [''river'', ''flame'', ''sky'', ''war'', ''harvest'', ''memory'']"

text \<open>Field names carry a prefix where two row classes share a name (\<^verbatim>\<open>id\<close>,
  \<^verbatim>\<open>name\<close>, \<^verbatim>\<open>alive\<close>, \<^verbatim>\<open>domain\<close>, \<^verbatim>\<open>coherence\<close>).\<close>

record citizen_row =
  citizen_id :: "int option"
  citizen_name :: string
  faction_id :: "int option"
  belief_vector :: "string \<rightharpoonup> real"
  fear :: real
  gratitude :: real
  citizen_alive :: bool

record faction_row =
  faction_row_id :: "int option"
  faction_name :: string
  doctrine_bias :: "string \<rightharpoonup> real"

record myth_row =
  myth_id :: "int option"
  myth_text :: string
  myth_faction_id :: "int option"
  myth_domain :: string
  confidence :: real
  day_created :: int

record god_row =
  god_id :: "int option"
  god_name :: string
  god_domain :: string
  belief_strength :: real
  god_coherence :: real
  god_alive :: bool
  birth_day :: int
  death_day :: "int option"
  consecutive_strong_days :: int
  consecutive_weak_days :: int

record world_state_row =
  ws_id :: "int option"
  ws_current_day :: int
  ws_current_age :: string
  age_day_counter :: int
  ws_seed :: int

subsection \<open>The database (\<^verbatim>\<open>data/database.py\<close>)\<close>

text \<open>
  One list of rows per SQLite table, in rowid order.  An \<^verbatim>\<open>INSERT\<close> gives the new row
  the rowid one above the largest in the table (1 in an empty table), an \<^verbatim>\<open>UPDATE ... WHERE id=?\<close>
  replaces the rows with that id.  The table \<^verbatim>\<open>factions\<close> declares
  \<^verbatim>\<open>name TEXT NOT NULL UNIQUE\<close>, so inserting a second faction of the same name raises.
\<close>

record database =
  world_state :: "world_state_row option"
  factions_table :: "faction_row list"
  citizens_table :: "citizen_row list"
  myths_table :: "myth_row list"
  gods_table :: "god_row list"

definition empty_db :: database where
  "empty_db = \<lparr> world_state = None, factions_table = [], citizens_table = [],
                 myths_table = [], gods_table = [] \<rparr>"

definition clear_all :: "database \<Rightarrow> database" where
  "clear_all db = db\<lparr> myths_table := [], citizens_table := [], gods_table := [],
                      factions_table := [], world_state := None \<rparr>"

fun max_rowid :: "int option list \<Rightarrow> int" where
  "max_rowid [] = 0"
| "max_rowid (None # ids) = max_rowid ids"
| "max_rowid (Some i # ids) = max i (max_rowid ids)"

definition lastrowid :: "int option list \<Rightarrow> int" where
  "lastrowid ids = max_rowid ids + 1"

definition get_world_state :: "database \<Rightarrow> world_state_row option" where
  "get_world_state db = world_state db"

definition save_world_state :: "database \<Rightarrow> world_state_row \<Rightarrow> database" where
  "save_world_state db state = db\<lparr> world_state := Some (state\<lparr> ws_id := Some 1 \<rparr>) \<rparr>"

definition save_faction :: "database \<Rightarrow> faction_row \<Rightarrow> error + (database \<times> faction_row)" where
  "save_faction db faction =
     (case faction_row_id faction of
        None \<Rightarrow>
          if faction_name faction \<in> set (map faction_name (factions_table db))
          then Inl (IntegrityError (faction_name faction))
          else (let faction' = faction\<lparr> faction_row_id :=
                                  Some (lastrowid (map faction_row_id (factions_table db))) \<rparr>
                in Inr (db\<lparr> factions_table := factions_table db @ [faction'] \<rparr>, faction'))
      | Some i \<Rightarrow>
          if Some i \<in> set (map faction_row_id (factions_table db)) \<and>
             (\<exists>r \<in> set (factions_table db).
                faction_row_id r \<noteq> Some i \<and> faction_name r = faction_name faction)
          then Inl (IntegrityError (faction_name faction))
          else Inr (db\<lparr> factions_table :=
                         map (\<lambda>r. if faction_row_id r = Some i then faction else r)
                             (factions_table db) \<rparr>, faction))"

definition get_all_factions :: "database \<Rightarrow> faction_row list" where
  "get_all_factions db = factions_table db"

definition save_citizen :: "database \<Rightarrow> citizen_row \<Rightarrow> database \<times> citizen_row" where
  "save_citizen db citizen =
     (case citizen_id citizen of
        None \<Rightarrow>
          (let citizen' = citizen\<lparr> citizen_id :=
                              Some (lastrowid (map citizen_id (citizens_table db))) \<rparr>
           in (db\<lparr> citizens_table := citizens_table db @ [citizen'] \<rparr>, citizen'))
      | Some i \<Rightarrow>
          (db\<lparr> citizens_table :=
                 map (\<lambda>r. if citizen_id r = Some i then citizen else r) (citizens_table db) \<rparr>,
           citizen))"

definition get_all_citizens :: "database \<Rightarrow> bool \<Rightarrow> citizen_row list" where
  "get_all_citizens db alive_only =
     (if alive_only then filter citizen_alive (citizens_table db) else citizens_table db)"

definition save_myth :: "database \<Rightarrow> myth_row \<Rightarrow> database \<times> myth_row" where
  "save_myth db myth =
     (case myth_id myth of
        None \<Rightarrow>
          (let myth' = myth\<lparr> myth_id := Some (lastrowid (map myth_id (myths_table db))) \<rparr>
           in (db\<lparr> myths_table := myths_table db @ [myth'] \<rparr>, myth'))
      | Some i \<Rightarrow> (db, myth))"

definition save_god :: "database \<Rightarrow> god_row \<Rightarrow> database \<times> god_row" where
  "save_god db god =
     (case god_id god of
        None \<Rightarrow>
          (let god' = god\<lparr> god_id := Some (lastrowid (map god_id (gods_table db))) \<rparr>
           in (db\<lparr> gods_table := gods_table db @ [god'] \<rparr>, god'))
      | Some i \<Rightarrow>
          (db\<lparr> gods_table := map (\<lambda>r. if god_id r = Some i then god else r) (gods_table db) \<rparr>,
           god))"

definition get_all_gods :: "database \<Rightarrow> bool \<Rightarrow> god_row list" where
  "get_all_gods db alive_only =
     (if alive_only then filter god_alive (gods_table db) else gods_table db)"

subsection \<open>Entities (\<^verbatim>\<open>sim/entities.py\<close>)\<close>

definition CITIZEN_PREFIXES :: "string list" where
  "CITIZEN_PREFIXES =
     [''Ash'', ''Brin'', ''Cal'', ''Dara'', ''Eld'', ''Fenn'', ''Gael'', ''Haran'', ''Isen'',
      ''Jora'', ''Kael'', ''Lira'', ''Morn'', ''Neth'', ''Oren'', ''Pira'', ''Quell'', ''Rath'',
      ''Sev'', ''Tarn'', ''Ula'', ''Vorn'', ''Wren'', ''Xan'', ''Yara'', ''Zeph'']"

definition CITIZEN_SUFFIXES :: "string list" where
  "CITIZEN_SUFFIXES =
     [''an'', ''el'', ''is'', ''on'', ''us'', ''a'', ''en'', ''or'', ''ia'', ''yn'',
      ''ax'', ''ix'', ''eth'', ''oth'', ''ara'', ''ira'', ''ona'', ''ius'', ''eon'', ''wyn'']"

definition FACTION_ADJECTIVES :: "string list" where
  "FACTION_ADJECTIVES =
     [''Crimson'', ''Azure'', ''Golden'', ''Ashen'', ''Verdant'', ''Obsidian'', ''Silver'',
      ''Amber'']"

definition FACTION_NOUNS :: "string list" where
  "FACTION_NOUNS =
     [''Covenant'', ''Circle'', ''Order'', ''Pact'', ''Brotherhood'', ''Sisterhood'',
      ''Assembly'', ''Conclave'']"

definition GOD_PREFIXES :: "(string \<times> string list) list" where
  "GOD_PREFIXES =
     [(''river'', [''Aqua'', ''Thal'', ''Riv'', ''Und'', ''Mare'']),
      (''flame'', [''Pyr'', ''Igna'', ''Braz'', ''Cind'', ''Scor'']),
      (''sky'', [''Ael'', ''Cael'', ''Zeph'', ''Aur'', ''Nub'']),
      (''war'', [''Bel'', ''Mort'', ''Vic'', ''Mar'', ''Stri'']),
      (''harvest'', [''Cer'', ''Fert'', ''Plen'', ''Grai'', ''Boun'']),
      (''memory'', [''Mnem'', ''Chron'', ''Eter'', ''Rem'', ''Hist''])]"

definition GOD_SUFFIXES :: "string list" where
  "GOD_SUFFIXES =
     [''us'', ''a'', ''ion'', ''or'', ''is'', ''ax'', ''oth'', ''iel'', ''ara'', ''eon'']"

definition generate_citizen_name :: "'g rng_ops \<Rightarrow> 'g \<Rightarrow> string \<times> 'g" where
  "generate_citizen_name ops g =
     (let (p, g1) = choice ops CITIZEN_PREFIXES g;
          (s, g2) = choice ops CITIZEN_SUFFIXES g1
      in (p @ s, g2))"

definition generate_faction_name :: "'g rng_ops \<Rightarrow> 'g \<Rightarrow> string \<times> 'g" where
  "generate_faction_name ops g =
     (let (a, g1) = choice ops FACTION_ADJECTIVES g;
          (n, g2) = choice ops FACTION_NOUNS g1
      in (''The '' @ a @ '' '' @ n, g2))"

definition generate_god_name :: "'g rng_ops \<Rightarrow> string \<Rightarrow> 'g \<Rightarrow> string \<times> 'g" where
  "generate_god_name ops domain g =
     (let prefixes = (case map_of GOD_PREFIXES domain of
                        Some ps \<Rightarrow> ps
                      | None \<Rightarrow> the (map_of GOD_PREFIXES ''memory''));
          (p, g1) = choice ops prefixes g;
          (s, g2) = choice ops GOD_SUFFIXES g1
      in (p @ s, g2))"

text \<open>\<^verbatim>\<open>{domain: rng.uniform(a, b) for domain in DOMAINS}\<close>, one draw per domain in order.\<close>

fun uniform_dict :: "'g rng_ops \<Rightarrow> real \<Rightarrow> real \<Rightarrow> string list \<Rightarrow> (string \<rightharpoonup> real) \<Rightarrow> 'g
    \<Rightarrow> (string \<rightharpoonup> real) \<times> 'g" where
  "uniform_dict ops a b [] m g = (m, g)"
| "uniform_dict ops a b (d # ds) m g =
     (let (v, g') = rng_uniform ops a b g in uniform_dict ops a b ds (m(d \<mapsto> v)) g')"

definition citizen_generate :: "'g rng_ops \<Rightarrow> int option \<Rightarrow> 'g \<Rightarrow> citizen_row \<times> 'g" where
  "citizen_generate ops fid g =
     (let (bv, g1) = uniform_dict ops 0 (3/10) DOMAINS Map.empty g;
          (name, g2) = generate_citizen_name ops g1;
          (f, g3) = rng_uniform ops (1/10) (4/10) g2;
          (gr, g4) = rng_uniform ops (1/10) (4/10) g3
      in (\<lparr> citizen_id = None, citizen_name = name, faction_id = fid, belief_vector = bv,
            fear = f, gratitude = gr, citizen_alive = True \<rparr>, g4))"

text \<open>\<^verbatim>\<open>dict.get(key, default)\<close>.\<close>

definition dict_get :: "('k \<rightharpoonup> 'v) \<Rightarrow> 'k \<Rightarrow> 'v \<Rightarrow> 'v" where
  "dict_get m k dflt = (case m k of None \<Rightarrow> dflt | Some v \<Rightarrow> v)"

definition update_belief :: "citizen_row \<Rightarrow> string \<Rightarrow> real \<Rightarrow> real \<Rightarrow> citizen_row" where
  "update_belief c domain delta faction_bias =
     (let current = dict_get (belief_vector c) domain 0;
          new_value = max 0 (min 1 (current + delta * faction_bias))
      in c\<lparr> belief_vector := (belief_vector c)(domain \<mapsto> new_value) \<rparr>)"

definition update_emotion :: "citizen_row \<Rightarrow> real \<Rightarrow> real \<Rightarrow> citizen_row" where
  "update_emotion c fear_delta gratitude_delta =
     (let c1 = c\<lparr> fear := max 0 (min 1 (fear c + fear_delta)) \<rparr>
      in c1\<lparr> gratitude := max 0 (min 1 (gratitude c1 + gratitude_delta)) \<rparr>)"

text \<open>\<^verbatim>\<open>for domain in favored: doctrine[domain] = rng.uniform(0.7, 1.0)\<close>.\<close>

fun favour_domains :: "'g rng_ops \<Rightarrow> string list \<Rightarrow> (string \<rightharpoonup> real) \<Rightarrow> 'g
    \<Rightarrow> (string \<rightharpoonup> real) \<times> 'g" where
  "favour_domains ops [] m g = (m, g)"
| "favour_domains ops (d # ds) m g =
     (let (v, g') = rng_uniform ops (7/10) 1 g in favour_domains ops ds (m(d \<mapsto> v)) g')"

text \<open>\<^verbatim>\<open>Faction\<close>: the row.  The \<^verbatim>\<open>members\<close> list of a faction is only appended to; no
  operation of the kernel reads it, and it is left out.\<close>

definition faction_generate :: "'g rng_ops \<Rightarrow> 'g \<Rightarrow> faction_row \<times> 'g" where
  "faction_generate ops g =
     (let (doctrine, g1) = uniform_dict ops (1/10) (4/10) DOMAINS Map.empty g;
          (k, g2) = rng_randint ops 1 2 g1;
          (favored, g3) = sample ops DOMAINS (nat k) g2;
          (doctrine', g4) = favour_domains ops favored doctrine g3;
          (name, g5) = generate_faction_name ops g4
      in (\<lparr> faction_row_id = None, faction_name = name, doctrine_bias = doctrine' \<rparr>, g5))"

definition get_bias :: "faction_row \<Rightarrow> string \<Rightarrow> real" where
  "get_bias f domain = dict_get (doctrine_bias f) domain (5/10)"

definition myth_create :: "string \<Rightarrow> string \<Rightarrow> real \<Rightarrow> int option \<Rightarrow> int \<Rightarrow> myth_row" where
  "myth_create txt domain conf fid day =
     \<lparr> myth_id = None, myth_text = txt, myth_faction_id = fid, myth_domain = domain,
       confidence = conf, day_created = day \<rparr>"

definition god_birth :: "'g rng_ops \<Rightarrow> string \<Rightarrow> real \<Rightarrow> real \<Rightarrow> int \<Rightarrow> 'g \<Rightarrow> god_row \<times> 'g" where
  "god_birth ops domain strength coh day g =
     (let (name, g') = generate_god_name ops domain g
      in (\<lparr> god_id = None, god_name = name, god_domain = domain, belief_strength = strength,
            god_coherence = coh, god_alive = True, birth_day = day, death_day = None,
            consecutive_strong_days = 0, consecutive_weak_days = 0 \<rparr>, g'))"

definition fade :: "god_row \<Rightarrow> int \<Rightarrow> god_row" where
  "fade god day = god\<lparr> god_alive := False, death_day := Some day \<rparr>"

definition update_strength :: "god_row \<Rightarrow> real \<Rightarrow> real \<Rightarrow> god_row" where
  "update_strength god new_strength new_coherence =
     god\<lparr> belief_strength := new_strength, god_coherence := new_coherence \<rparr>"

subsection \<open>The god system (\<^verbatim>\<open>sim/gods.py\<close>)\<close>

definition BELIEF_THRESHOLD :: real where "BELIEF_THRESHOLD = 6/10"
definition COHERENCE_THRESHOLD :: real where "COHERENCE_THRESHOLD = 5/10"
definition CONSECUTIVE_DAYS_BIRTH :: int where "CONSECUTIVE_DAYS_BIRTH = 5"
definition CONSECUTIVE_DAYS_FADE :: int where "CONSECUTIVE_DAYS_FADE = 7"
definition FADE_THRESHOLD :: real where "FADE_THRESHOLD = 3/10"

record belief_aggregation =
  agg_domain :: string
  total_belief :: real
  believer_count :: int
  average_belief :: real
  agg_coherence :: real

text \<open>The body of the loop of \<^verbatim>\<open>aggregate_beliefs\<close> for one domain.\<close>

definition aggregate_domain :: "citizen_row list \<Rightarrow> string \<Rightarrow> belief_aggregation" where
  "aggregate_domain citizens domain =
     (let beliefs = map (\<lambda>c. dict_get (belief_vector c) domain 0) citizens
      in if beliefs = []
         then \<lparr> agg_domain = domain, total_belief = 0, believer_count = 0,
                average_belief = 0, agg_coherence = 0 \<rparr>
         else (let total = sum_list beliefs;
                   avg = total / real (length beliefs);
                   variance = sum_list (map (\<lambda>b. (b - avg)\<^sup>2) beliefs) / real (length beliefs);
                   coherence = max 0 (1 - variance * 4);
                   believers = int (length (filter (\<lambda>b. b > 3/10) beliefs))
               in \<lparr> agg_domain = domain, total_belief = total, believer_count = believers,
                     average_belief = avg, agg_coherence = coherence \<rparr>))"

text \<open>The dictionary \<^verbatim>\<open>aggregations\<close>, its keys in the order of \<^verbatim>\<open>DOMAINS\<close>.\<close>

definition aggregate_beliefs :: "citizen_row list \<Rightarrow> (string \<times> belief_aggregation) list" where
  "aggregate_beliefs citizens = map (\<lambda>d. (d, aggregate_domain citizens d)) DOMAINS"

text \<open>\<^verbatim>\<open>GodSystem\<close>: the database and the generator are the engine's objects.
  \<^verbatim>\<open>_proto_god_days\<close> is a dictionary with the six domains as keys, created with every
  value 0; it is only read and written at keys taken from \<^verbatim>\<open>DOMAINS\<close>, and is modelled
  by a total function.\<close>

record 'g god_system =
  gs_db :: database
  gs_rng :: 'g
  proto_god_days :: "string \<Rightarrow> int"

text \<open>The body of the first loop of \<^verbatim>\<open>process_gods\<close> for one living god, before it is
  saved: the updated row, and whether it was appended to \<^verbatim>\<open>faded\<close>.\<close>

definition check_fade :: "belief_aggregation \<Rightarrow> int \<Rightarrow> god_row \<Rightarrow> god_row \<times> bool" where
  "check_fade agg current_day god =
     (let god1 = update_strength god (average_belief agg) (agg_coherence agg)
      in if average_belief agg < FADE_THRESHOLD
         then (let god2 = god1\<lparr> consecutive_weak_days := consecutive_weak_days god1 + 1,
                                consecutive_strong_days := 0 \<rparr>
               in if consecutive_weak_days god2 \<ge> CONSECUTIVE_DAYS_FADE
                  then (fade god2 current_day, True)
                  else (god2, False))
         else (god1\<lparr> consecutive_weak_days := 0,
                     consecutive_strong_days := consecutive_strong_days god1 + 1 \<rparr>, False))"

text \<open>The first loop.  It returns the database, and either the \<^verbatim>\<open>KeyError\<close> of
  \<^verbatim>\<open>aggregations[god.row.domain]\<close> or the list \<^verbatim>\<open>existing_gods\<close> as the loop left it
  together with the list \<^verbatim>\<open>faded\<close>.\<close>

fun check_existing :: "(string \<times> belief_aggregation) list \<Rightarrow> int \<Rightarrow> god_row list \<Rightarrow> database
    \<Rightarrow> database \<times> (error + (god_row list \<times> god_row list))" where
  "check_existing aggs current_day [] db = (db, Inr ([], []))"
| "check_existing aggs current_day (god # gods) db =
     (case map_of aggs (god_domain god) of
        None \<Rightarrow> (db, Inl (KeyError (god_domain god)))
      | Some agg \<Rightarrow>
          (let (god1, is_faded) = check_fade agg current_day god;
               (db1, god2) = save_god db god1
           in case check_existing aggs current_day gods db1 of
                (db2, Inl e) \<Rightarrow> (db2, Inl e)
              | (db2, Inr (existing, faded)) \<Rightarrow>
                  (db2, Inr (god2 # existing, if is_faded then god2 # faded else faded))))"

text \<open>The body of the second loop of \<^verbatim>\<open>process_gods\<close> for one entry of
  \<^verbatim>\<open>aggregations.items()\<close>: the god system after it, and the god appended to \<^verbatim>\<open>born\<close>
  if there is one.\<close>

definition check_birth :: "'g rng_ops \<Rightarrow> string set \<Rightarrow> int \<Rightarrow> string \<Rightarrow> belief_aggregation
    \<Rightarrow> 'g god_system \<Rightarrow> 'g god_system \<times> god_row option" where
  "check_birth ops living_domains current_day domain agg gs =
     (if domain \<in> living_domains
      then (gs\<lparr> proto_god_days := (proto_god_days gs)(domain := 0) \<rparr>, None)
      else if average_belief agg \<ge> BELIEF_THRESHOLD \<and> agg_coherence agg \<ge> COHERENCE_THRESHOLD
      then (let gs1 = gs\<lparr> proto_god_days :=
                            (proto_god_days gs)(domain := proto_god_days gs domain + 1) \<rparr>
            in if proto_god_days gs1 domain \<ge> CONSECUTIVE_DAYS_BIRTH
               then (let (god, g') = god_birth ops domain (average_belief agg)
                                       (agg_coherence agg) current_day (gs_rng gs1);
                         (db', god') = save_god (gs_db gs1) god
                     in (gs1\<lparr> gs_rng := g', gs_db := db',
                              proto_god_days := (proto_god_days gs1)(domain := 0) \<rparr>,
                         Some god'))
               else (gs1, None))
      else (gs\<lparr> proto_god_days := (proto_god_days gs)(domain := 0) \<rparr>, None))"

text \<open>The second loop; it returns the list \<^verbatim>\<open>born\<close>.\<close>

fun check_births :: "'g rng_ops \<Rightarrow> string set \<Rightarrow> int \<Rightarrow> (string \<times> belief_aggregation) list
    \<Rightarrow> 'g god_system \<Rightarrow> 'g god_system \<times> god_row list" where
  "check_births ops living_domains current_day [] gs = (gs, [])"
| "check_births ops living_domains current_day ((domain, agg) # rest) gs =
     (let (gs1, newborn) = check_birth ops living_domains current_day domain agg gs;
          (gs2, born) = check_births ops living_domains current_day rest gs1
      in (gs2, (case newborn of None \<Rightarrow> born | Some god \<Rightarrow> god # born)))"

text \<open>The body of \<^verbatim>\<open>process_gods\<close> after its first statement, which computes the
  dictionary \<^verbatim>\<open>aggregations\<close>.\<close>

definition process_aggregations :: "'g rng_ops \<Rightarrow> (string \<times> belief_aggregation) list \<Rightarrow> int
    \<Rightarrow> 'g god_system \<Rightarrow> 'g god_system \<times> (error + (god_row list \<times> god_row list))" where
  "process_aggregations ops aggregations current_day gs =
     (let existing_gods = get_all_gods (gs_db gs) True
      in case check_existing aggregations current_day existing_gods (gs_db gs) of
           (db1, Inl e) \<Rightarrow> (gs\<lparr> gs_db := db1 \<rparr>, Inl e)
         | (db1, Inr (existing, faded)) \<Rightarrow>
             (let living_domains = set (map god_domain (filter god_alive existing));
                  (gs', born) = check_births ops living_domains current_day aggregations
                                  (gs\<lparr> gs_db := db1 \<rparr>)
              in (gs', Inr (born, faded))))"

definition process_gods :: "'g rng_ops \<Rightarrow> citizen_row list \<Rightarrow> int \<Rightarrow> 'g god_system
    \<Rightarrow> 'g god_system \<times> (error + (god_row list \<times> god_row list))" where
  "process_gods ops citizens current_day gs =
     (let aggregations = aggregate_beliefs citizens
      in process_aggregations ops aggregations current_day gs)"

subsection \<open>Events (\<^verbatim>\<open>sim/events.py\<close>)\<close>

record event =
  event_name :: string
  description :: string
  primary_domain :: string
  secondary_domain :: "string option"
  fear_impact :: real
  gratitude_impact :: real
  belief_impact :: real
  magnitude :: real

text \<open>A template is \<open>(name, description, fear, gratitude, belief)\<close>.\<close>

definition EVENT_TEMPLATES :: "(string \<times> (string \<times> string \<times> real \<times> real \<times> real) list) list" where
  "EVENT_TEMPLATES =
     [(''river'',
       [(''The Great Flooding'', ''Waters rise beyond their banks'', 4/10, -2/10, 3/10),
        (''The Still Waters'', ''Rivers calm to mirror-glass'', -2/10, 3/10, 2/10),
        (''The River's Bounty'', ''Fish leap willingly into nets'', -1/10, 5/10, 4/10),
        (''The Poisoned Springs'', ''Wells turn bitter and foul'', 5/10, -3/10, 3/10),
        (''The Parting Currents'', ''Waters divide before the faithful'', 1/10, 4/10, 5/10)]),
      (''flame'',
       [(''The Consuming Fire'', ''Flames devour without warning'', 6/10, -4/10, 4/10),
        (''The Warming Hearth'', ''All fires burn steady and true'', -2/10, 4/10, 3/10),
        (''The Forge's Blessing'', ''Metalwork emerges flawless'', -1/10, 5/10, 4/10),
        (''The Ember Rain'', ''Sparks fall from cloudless sky'', 5/10, -2/10, 5/10),
        (''The Eternal Flame'', ''A fire burns without fuel'', 2/10, 3/10, 6/10)]),
      (''sky'',
       [(''The Darkened Sun'', ''Shadow crosses the daylight'', 5/10, -3/10, 5/10),
        (''The Gentle Rains'', ''Clouds bring life-giving water'', -2/10, 5/10, 3/10),
        (''The Thunder Voice'', ''Lightning speaks across valleys'', 3/10, 1/10, 4/10),
        (''The Clear Heavens'', ''Stars align in ancient patterns'', 1/10, 4/10, 4/10),
        (''The Howling Winds'', ''Gales tear at all standing'', 5/10, -3/10, 3/10)]),
      (''war'',
       [(''The Border Clash'', ''Blood spills at the boundaries'', 4/10, -2/10, 3/10),
        (''The Victorious Return'', ''Warriors come home triumphant'', 1/10, 5/10, 4/10),
        (''The Broken Peace'', ''Old alliances shatter'', 5/10, -4/10, 4/10),
        (''The Honorable Duel'', ''Champions settle disputes'', 2/10, 2/10, 3/10),
        (''The Siege Lifted'', ''Enemies retreat in defeat'', 0, 6/10, 5/10)]),
      (''harvest'',
       [(''The Abundant Yield'', ''Fields overflow with grain'', -2/10, 6/10, 4/10),
        (''The Blighted Crops'', ''Rot spreads through stores'', 5/10, -4/10, 3/10),
        (''The First Fruits'', ''Early harvest brings hope'', -1/10, 4/10, 3/10),
        (''The Locust Swarm'', ''Insects devour all growth'', 6/10, -5/10, 4/10),
        (''The Golden Fields'', ''Grain grows tall and strong'', -2/10, 5/10, 4/10)]),
      (''memory'',
       [(''The Forgotten Name'', ''Ancient knowledge is lost'', 3/10, -2/10, 3/10),
        (''The Recovered Scroll'', ''Old wisdom resurfaces'', 1/10, 4/10, 4/10),
        (''The Prophetic Dream'', ''Visions reveal hidden truths'', 2/10, 3/10, 5/10),
        (''The Ancestral Voice'', ''The dead speak to the living'', 3/10, 2/10, 5/10),
        (''The Chronicle Burns'', ''Records are destroyed'', 4/10, -3/10, 3/10)])]"

record event_modifiers =
  magnitude_boost :: real
  positive_bias :: real

fun AGE_EVENT_MODIFIERS :: "age \<Rightarrow> event_modifiers" where
  "AGE_EVENT_MODIFIERS EMERGENCE = \<lparr> magnitude_boost = 1/10, positive_bias = 1/10 \<rparr>"
| "AGE_EVENT_MODIFIERS ORDER = \<lparr> magnitude_boost = -1/10, positive_bias = 2/10 \<rparr>"
| "AGE_EVENT_MODIFIERS STRAIN = \<lparr> magnitude_boost = 1/10, positive_bias = -1/10 \<rparr>"
| "AGE_EVENT_MODIFIERS COLLAPSE = \<lparr> magnitude_boost = 3/10, positive_bias = -3/10 \<rparr>"
| "AGE_EVENT_MODIFIERS SILENCE = \<lparr> magnitude_boost = -2/10, positive_bias = 0 \<rparr>"
| "AGE_EVENT_MODIFIERS REBIRTH = \<lparr> magnitude_boost = 0, positive_bias = 2/10 \<rparr>"

text \<open>\<^verbatim>\<open>EVENT_TEMPLATES[primary_domain]\<close> is read at a key that \<^verbatim>\<open>choice\<close> took from
  \<^verbatim>\<open>DOMAINS\<close>; every domain is a key of the table.\<close>

definition generate_event :: "'g rng_ops \<Rightarrow> age \<Rightarrow> real \<Rightarrow> 'g \<Rightarrow> event option \<times> 'g" where
  "generate_event ops age rate g =
     (let (r, g1) = rng_random ops g
      in if r > rate then (None, g1)
         else (let (primary, g2) = choice ops DOMAINS g1;
                   templates = the (map_of EVENT_TEMPLATES primary);
                   ((name, desc, fear0, grat0, belief), g3) = choice ops templates g2;
                   (r2, g4) = rng_random ops g3;
                   (secondary, g5) =
                      (if r2 < 3/10
                       then (let others = filter (\<lambda>d. d \<noteq> primary) DOMAINS;
                                 (d, g') = choice ops others g4
                             in (Some d, g'))
                       else (None, g4));
                   modifiers = AGE_EVENT_MODIFIERS age;
                   (u, g6) = rng_uniform ops (-2/10) (2/10) g5;
                   magnitude0 = 5/10 + u + magnitude_boost modifiers;
                   mag = max (1/10) (min 1 magnitude0);
                   bias = positive_bias modifiers;
                   fear1 = fear0 - bias * (2/10);
                   grat1 = grat0 + bias * (2/10)
               in (Some \<lparr> event_name = name, description = desc, primary_domain = primary,
                          secondary_domain = secondary, fear_impact = fear1 * mag,
                          gratitude_impact = grat1 * mag, belief_impact = belief * mag,
                          magnitude = mag \<rparr>, g6)))"

subsection \<open>The engine (\<^verbatim>\<open>sim/engine.py\<close>)\<close>

definition INITIAL_FACTIONS :: nat where "INITIAL_FACTIONS = 3"
definition INITIAL_CITIZENS_PER_FACTION :: nat where "INITIAL_CITIZENS_PER_FACTION = 8"
definition UNAFFILIATED_CITIZENS :: nat where "UNAFFILIATED_CITIZENS = 5"

record tick_result =
  tr_day :: int
  tr_age :: age
  tr_event :: "event option"
  age_transition :: "age option"
  born_gods :: "god_row list"
  faded_gods :: "god_row list"
  new_myths :: "myth_row list"

text \<open>
  An initialised \<^verbatim>\<open>SimulationEngine\<close>.  The narrator is a callback that is given the
  tick result; it returns normally (\<open>None\<close>) or raises (\<open>Some e\<close>).  The event generator
  and the god system hold the engine's database and generator, so of the god system only
  the dictionary \<^verbatim>\<open>_proto_god_days\<close> is a field of its own.
\<close>

record 'g engine =
  e_db :: database
  e_seed :: int
  e_rng :: 'g
  narrator :: "(tick_result \<Rightarrow> error option) option"
  age_mgr :: age_manager
  current_day :: int
  factions :: "faction_row list"
  citizens :: "citizen_row list"
  e_proto_god_days :: "string \<Rightarrow> int"

definition save_world_state_of :: "'g engine \<Rightarrow> 'g engine" where
  "save_world_state_of st =
     (let state = \<lparr> ws_id = Some 1, ws_current_day = current_day st,
                     ws_current_age = age_value (current_age (age_mgr st)),
                     age_day_counter = day_counter (age_mgr st), ws_seed = e_seed st \<rparr>
      in st\<lparr> e_db := save_world_state (e_db st) state \<rparr>)"

text \<open>\<^verbatim>\<open>for _ in range(n): citizen = Citizen.generate(fid, rng); save; append\<close>.\<close>

fun create_citizens :: "'g rng_ops \<Rightarrow> nat \<Rightarrow> int option \<Rightarrow> database \<times> citizen_row list \<times> 'g
    \<Rightarrow> database \<times> citizen_row list \<times> 'g" where
  "create_citizens ops 0 fid acc = acc"
| "create_citizens ops (Suc n) fid (db, cs, g) =
     (let (citizen, g1) = citizen_generate ops fid g;
          (db1, citizen1) = save_citizen db citizen
      in create_citizens ops n fid (db1, cs @ [citizen1], g1))"

text \<open>The loop over \<^verbatim>\<open>range(INITIAL_FACTIONS)\<close>; \<^verbatim>\<open>save_faction\<close> may raise.\<close>

fun create_factions :: "'g rng_ops \<Rightarrow> nat \<Rightarrow> database \<times> faction_row list \<times> citizen_row list \<times> 'g
    \<Rightarrow> error + (database \<times> faction_row list \<times> citizen_row list \<times> 'g)" where
  "create_factions ops 0 acc = Inr acc"
| "create_factions ops (Suc n) (db, fs, cs, g) =
     (let (faction, g1) = faction_generate ops g
      in case save_faction db faction of
           Inl e \<Rightarrow> Inl e
         | Inr (db1, faction1) \<Rightarrow>
             (let (db2, cs2, g2) = create_citizens ops INITIAL_CITIZENS_PER_FACTION
                                     (faction_row_id faction1) (db1, cs, g1)
              in create_factions ops n (db2, fs @ [faction1], cs2, g2)))"

definition create_new_world :: "'g rng_ops \<Rightarrow> database \<Rightarrow> int
    \<Rightarrow> (tick_result \<Rightarrow> error option) option \<Rightarrow> 'g \<Rightarrow> error + 'g engine" where
  "create_new_world ops db seed nar g =
     (let (am, g1) = am_new ops g
      in case create_factions ops INITIAL_FACTIONS (db, [], [], g1) of
           Inl e \<Rightarrow> Inl e
         | Inr (db1, fs, cs, g2) \<Rightarrow>
             (let (db2, cs2, g3) = create_citizens ops UNAFFILIATED_CITIZENS None (db1, cs, g2)
              in Inr (save_world_state_of
                        \<lparr> e_db = db2, e_seed = seed, e_rng = g3, narrator = nar, age_mgr = am,
                          current_day = 0, factions = fs, citizens = cs2,
                          e_proto_god_days = (\<lambda>d. 0) \<rparr>)))"

text \<open>\<^verbatim>\<open>for _ in range(n): rng.random()\<close>.\<close>

fun advance_rng :: "'g rng_ops \<Rightarrow> nat \<Rightarrow> 'g \<Rightarrow> 'g" where
  "advance_rng ops 0 g = g"
| "advance_rng ops (Suc n) g = advance_rng ops n (snd (rng_random ops g))"

definition restore_world :: "'g rng_ops \<Rightarrow> database \<Rightarrow> world_state_row
    \<Rightarrow> (tick_result \<Rightarrow> error option) option \<Rightarrow> error + 'g engine" where
  "restore_world ops db state nar =
     (let g = advance_rng ops (nat (ws_current_day state)) (rng_new ops (ws_seed state))
      in case from_state (ws_current_age state) (age_day_counter state) of
           Inl e \<Rightarrow> Inl e
         | Inr am \<Rightarrow>
             Inr \<lparr> e_db = db, e_seed = ws_seed state, e_rng = g, narrator = nar, age_mgr = am,
                   current_day = ws_current_day state, factions = get_all_factions db,
                   citizens = get_all_citizens db True, e_proto_god_days = (\<lambda>d. 0) \<rparr>)"

text \<open>The constructor followed by \<^verbatim>\<open>initialize(fresh)\<close>, on a database in state \<open>db\<close>.\<close>

definition initialize :: "'g rng_ops \<Rightarrow> database \<Rightarrow> int \<Rightarrow> (tick_result \<Rightarrow> error option) option
    \<Rightarrow> bool \<Rightarrow> error + 'g engine" where
  "initialize ops db seed nar fresh =
     (let db1 = (if fresh then clear_all db else db)
      in case get_world_state db1 of
           None \<Rightarrow> create_new_world ops db1 seed nar (rng_new ops seed)
         | Some world \<Rightarrow> restore_world ops db1 world nar)"

text \<open>The body of the loop of \<^verbatim>\<open>_apply_event\<close> for one citizen.  \<^verbatim>\<open>if citizen.row.faction_id\<close>
  is false for \<^verbatim>\<open>None\<close> and for 0; \<^verbatim>\<open>if event.secondary_domain\<close> is false for \<^verbatim>\<open>None\<close>
  and for the empty string.\<close>

definition resolve_faction_bias :: "faction_row list \<Rightarrow> event \<Rightarrow> citizen_row \<Rightarrow> real" where
  "resolve_faction_bias fs ev c =
     (if faction_id c \<noteq> None \<and> faction_id c \<noteq> Some 0
      then (case find (\<lambda>f. faction_row_id f = faction_id c) fs of
              Some f \<Rightarrow> get_bias f (primary_domain ev)
            | None \<Rightarrow> 1)
      else 1)"

definition apply_event_citizen :: "'g rng_ops \<Rightarrow> event \<Rightarrow> age_traits \<Rightarrow> faction_row list
    \<Rightarrow> citizen_row \<Rightarrow> 'g \<Rightarrow> citizen_row \<times> 'g" where
  "apply_event_citizen ops ev traits fs c g =
     (let faction_bias = resolve_faction_bias fs ev c;
          (r1, g1) = rng_random ops g;
          belief_delta = belief_impact ev * belief_growth traits * (8/10 + r1 * (4/10));
          c1 = update_belief c (primary_domain ev) belief_delta faction_bias;
          c2 = (case secondary_domain ev of
                  None \<Rightarrow> c1
                | Some d \<Rightarrow> if d = [] then c1
                            else update_belief c1 d (belief_delta * (5/10)) faction_bias);
          (r2, g2) = rng_random ops g1;
          fear_delta = fear_impact ev * fear_modifier traits * (8/10 + r2 * (4/10));
          (r3, g3) = rng_random ops g2;
          grat_delta = gratitude_impact ev * gratitude_modifier traits * (8/10 + r3 * (4/10))
      in (update_emotion c2 fear_delta grat_delta, g3))"

fun apply_event_loop :: "'g rng_ops \<Rightarrow> event \<Rightarrow> age_traits \<Rightarrow> faction_row list
    \<Rightarrow> citizen_row list \<Rightarrow> 'g \<Rightarrow> citizen_row list \<times> 'g" where
  "apply_event_loop ops ev traits fs [] g = ([], g)"
| "apply_event_loop ops ev traits fs (c # cs) g =
     (let (c', g1) = apply_event_citizen ops ev traits fs c g;
          (cs', g2) = apply_event_loop ops ev traits fs cs g1
      in (c' # cs', g2))"

definition apply_event :: "'g rng_ops \<Rightarrow> event \<Rightarrow> 'g engine \<Rightarrow> 'g engine" where
  "apply_event ops ev st =
     (let (cs, g) = apply_event_loop ops ev (AGE_TRAITS (current_age (age_mgr st)))
                      (factions st) (citizens st) (e_rng st)
      in st\<lparr> citizens := cs, e_rng := g \<rparr>)"

fun create_myths_loop :: "'g rng_ops \<Rightarrow> event \<Rightarrow> int \<Rightarrow> faction_row list \<Rightarrow> database \<Rightarrow> 'g
    \<Rightarrow> myth_row list \<times> database \<times> 'g" where
  "create_myths_loop ops ev day [] db g = ([], db, g)"
| "create_myths_loop ops ev day (f # fs) db g =
     (let (r, g1) = rng_random ops g
      in if r < 3/10
         then (let conf = get_bias f (primary_domain ev);
                   myth = myth_create (''The '' @ faction_name f @ '' witnessed '' @ description ev)
                            (primary_domain ev) conf (faction_row_id f) day;
                   (db1, myth1) = save_myth db myth;
                   (myths, db2, g2) = create_myths_loop ops ev day fs db1 g1
               in (myth1 # myths, db2, g2))
         else create_myths_loop ops ev day fs db g1)"

definition create_myths :: "'g rng_ops \<Rightarrow> event \<Rightarrow> 'g engine \<Rightarrow> myth_row list \<times> 'g engine" where
  "create_myths ops ev st =
     (let (myths, db, g) = create_myths_loop ops ev (current_day st) (factions st)
                             (e_db st) (e_rng st)
      in (myths, st\<lparr> e_db := db, e_rng := g \<rparr>))"

text \<open>\<^verbatim>\<open>for citizen in self._citizens: self.db.save_citizen(citizen.row)\<close>.\<close>

fun save_citizens :: "database \<Rightarrow> citizen_row list \<Rightarrow> database \<times> citizen_row list" where
  "save_citizens db [] = (db, [])"
| "save_citizens db (c # cs) =
     (let (db1, c1) = save_citizen db c;
          (db2, cs1) = save_citizens db1 cs
      in (db2, c1 # cs1))"

text \<open>\<^verbatim>\<open>tick\<close>: the engine after the call, and the result it returned or the exception
  that left it.\<close>

definition tick :: "'g rng_ops \<Rightarrow> 'g engine \<Rightarrow> 'g engine \<times> (error + tick_result)" where
  "tick ops st =
     (let st1 = st\<lparr> current_day := current_day st + 1 \<rparr>;
          (transition, am, g1) = am_tick ops (age_mgr st1) (e_rng st1);
          st2 = st1\<lparr> age_mgr := am, e_rng := g1 \<rparr>;
          (ev, g2) = generate_event ops (current_age am) (event_rate (AGE_TRAITS (current_age am)))
                       (e_rng st2);
          st3 = st2\<lparr> e_rng := g2 \<rparr>;
          (myths, st4) = (case ev of
                            None \<Rightarrow> ([], st3)
                          | Some e \<Rightarrow> create_myths ops e (apply_event ops e st3));
          (gs, outcome) = process_gods ops (citizens st4) (current_day st4)
                            \<lparr> gs_db = e_db st4, gs_rng = e_rng st4,
                              proto_god_days = e_proto_god_days st4 \<rparr>;
          st5 = st4\<lparr> e_db := gs_db gs, e_rng := gs_rng gs,
                     e_proto_god_days := proto_god_days gs \<rparr>
      in case outcome of
           Inl e \<Rightarrow> (st5, Inl e)
         | Inr (born, faded) \<Rightarrow>
             (let (db6, cs6) = save_citizens (e_db st5) (citizens st5);
                  st6 = save_world_state_of (st5\<lparr> e_db := db6, citizens := cs6 \<rparr>);
                  result = \<lparr> tr_day = current_day st6, tr_age = current_age (age_mgr st6),
                             tr_event = ev, age_transition = transition, born_gods = born,
                             faded_gods = faded, new_myths = myths \<rparr>
              in case narrator st6 of
                   None \<Rightarrow> (st6, Inr result)
                 | Some callback \<Rightarrow>
                     (case callback result of
                        Some e \<Rightarrow> (st6, Inl e)
                      | None \<Rightarrow> (st6, Inr result))))"

text \<open>The engine after \<open>n\<close> calls of \<^verbatim>\<open>tick\<close> (whether or not a call raised), and the
  outcomes of the calls in order.\<close>

fun ticks :: "'g rng_ops \<Rightarrow> nat \<Rightarrow> 'g engine \<Rightarrow> 'g engine" where
  "ticks ops 0 st = st"
| "ticks ops (Suc n) st = ticks ops n (fst (tick ops st))"


subsection \<open>The phases of a tick\<close>

text \<open>The body of \<^verbatim>\<open>tick\<close> cut at its comments: up to the myths, the god system, the
  saving of citizens and world state, the result record, the narrator call.  Lemma
  \<open>tick_phases\<close> below shows that \<open>tick\<close> is their composition.\<close>

definition event_phase :: "'g rng_ops \<Rightarrow> 'g engine
    \<Rightarrow> age option \<times> event option \<times> myth_row list \<times> 'g engine" where
  "event_phase ops st =
     (let st1 = st\<lparr> current_day := current_day st + 1 \<rparr>;
          (transition, am, g1) = am_tick ops (age_mgr st1) (e_rng st1);
          st2 = st1\<lparr> age_mgr := am, e_rng := g1 \<rparr>;
          (ev, g2) = generate_event ops (current_age am) (event_rate (AGE_TRAITS (current_age am)))
                       (e_rng st2);
          st3 = st2\<lparr> e_rng := g2 \<rparr>;
          (myths, st4) = (case ev of
                            None \<Rightarrow> ([], st3)
                          | Some e \<Rightarrow> create_myths ops e (apply_event ops e st3))
      in (transition, ev, myths, st4))"

definition gods_phase :: "'g rng_ops \<Rightarrow> 'g engine
    \<Rightarrow> 'g engine \<times> (error + (god_row list \<times> god_row list))" where
  "gods_phase ops st4 =
     (let (gs, outcome) = process_gods ops (citizens st4) (current_day st4)
                            \<lparr> gs_db = e_db st4, gs_rng = e_rng st4,
                              proto_god_days = e_proto_god_days st4 \<rparr>
      in (st4\<lparr> e_db := gs_db gs, e_rng := gs_rng gs,
                e_proto_god_days := proto_god_days gs \<rparr>, outcome))"

definition persist_phase :: "'g engine \<Rightarrow> 'g engine" where
  "persist_phase st5 =
     (let (db6, cs6) = save_citizens (e_db st5) (citizens st5)
      in save_world_state_of (st5\<lparr> e_db := db6, citizens := cs6 \<rparr>))"

definition tick_result_of :: "'g engine \<Rightarrow> age option \<Rightarrow> event option \<Rightarrow> myth_row list
    \<Rightarrow> god_row list \<Rightarrow> god_row list \<Rightarrow> tick_result" where
  "tick_result_of st6 transition ev myths born faded =
     \<lparr> tr_day = current_day st6, tr_age = current_age (age_mgr st6),
       tr_event = ev, age_transition = transition, born_gods = born,
       faded_gods = faded, new_myths = myths \<rparr>"

definition narrate :: "'g engine \<Rightarrow> tick_result \<Rightarrow> error + tick_result" where
  "narrate st6 result =
     (case narrator st6 of
        None \<Rightarrow> Inr result
      | Some callback \<Rightarrow> (case callback result of Some e \<Rightarrow> Inl e | None \<Rightarrow> Inr result))"

subsection \<open>Notions used in the properties\<close>

text \<open>The arithmetic average and the population variance of a list of values, and the
  belief values of the living citizens of a population in one domain.\<close>

definition arithmetic_mean :: "real list \<Rightarrow> real" where
  "arithmetic_mean xs = sum_list xs / real (length xs)"

definition population_variance :: "real list \<Rightarrow> real" where
  "population_variance xs = arithmetic_mean (map (\<lambda>x. (x - arithmetic_mean xs)\<^sup>2) xs)"

definition living_beliefs :: "citizen_row list \<Rightarrow> string \<Rightarrow> real list" where
  "living_beliefs cs d = map (\<lambda>c. dict_get (belief_vector c) d 0) (filter citizen_alive cs)"

definition in_unit :: "real \<Rightarrow> bool" where
  "in_unit x = (0 \<le> x \<and> x \<le> 1)"

definition citizen_clamped :: "citizen_row \<Rightarrow> bool" where
  "citizen_clamped c =
     ((\<forall>d v. belief_vector c d = Some v \<longrightarrow> in_unit v) \<and> in_unit (fear c) \<and> in_unit (gratitude c))"

text \<open>What identifies a citizen of the collection, and its life flag.\<close>

definition citizen_key :: "citizen_row \<Rightarrow> int option \<times> string \<times> int option \<times> bool" where
  "citizen_key c = (citizen_id c, citizen_name c, faction_id c, citizen_alive c)"

text \<open>Saving a row leaves it as it is, or gives it its rowid when it had none.\<close>

definition saved_as :: "citizen_row \<Rightarrow> citizen_row \<Rightarrow> bool" where
  "saved_as c c' = (c' = c \<or> (citizen_id c = None \<and> (\<exists>i. c' = c\<lparr> citizen_id := Some i \<rparr>)))"

text \<open>A population of two for evaluation: one citizen believes in the river, one in nothing.\<close>

definition believer :: "real \<Rightarrow> citizen_row" where
  "believer v = \<lparr> citizen_id = None, citizen_name = ''Ashan'', faction_id = None,
                  belief_vector = [''river'' \<mapsto> v], fear = 2/10, gratitude = 2/10,
                  citizen_alive = True \<rparr>"

text \<open>The gods table as SQLite keeps it (\<^verbatim>\<open>id INTEGER PRIMARY KEY\<close>: every row has a
  rowid and no two rows share one), and the exclusivity of domains among living gods.\<close>

definition gods_keyed :: "god_row list \<Rightarrow> bool" where
  "gods_keyed t = (distinct (map god_id t) \<and> None \<notin> set (map god_id t))"

definition one_god_per_domain :: "god_row list \<Rightarrow> bool" where
  "one_god_per_domain t = distinct (map god_domain (filter god_alive t))"

text \<open>What the first loop of \<^verbatim>\<open>process_gods\<close> makes of a row that has an aggregation.\<close>

definition faded_row :: "(string \<times> belief_aggregation) list \<Rightarrow> int \<Rightarrow> god_row \<Rightarrow> god_row" where
  "faded_row aggs day r =
     (case map_of aggs (god_domain r) of None \<Rightarrow> r | Some agg \<Rightarrow> fst (check_fade agg day r))"

definition has_aggregation :: "(string \<times> belief_aggregation) list \<Rightarrow> god_row \<Rightarrow> bool" where
  "has_aggregation aggs r = (map_of aggs (god_domain r) \<noteq> None)"

definition fades :: "(string \<times> belief_aggregation) list \<Rightarrow> int \<Rightarrow> god_row \<Rightarrow> bool" where
  "fades aggs day r =
     (case map_of aggs (god_domain r) of None \<Rightarrow> False | Some agg \<Rightarrow> snd (check_fade agg day r))"

definition living_domains_of :: "god_row list \<Rightarrow> string set" where
  "living_domains_of t = set (map god_domain (filter god_alive t))"

definition birth_criteria :: "belief_aggregation \<Rightarrow> bool" where
  "birth_criteria agg =
     (average_belief agg \<ge> BELIEF_THRESHOLD \<and> agg_coherence agg \<ge> COHERENCE_THRESHOLD)"

definition birth_due :: "string set \<Rightarrow> (string \<Rightarrow> int) \<Rightarrow> string \<times> belief_aggregation \<Rightarrow> bool" where
  "birth_due living proto entry =
     (fst entry \<notin> living \<and> birth_criteria (snd entry) \<and>
      proto (fst entry) + 1 \<ge> CONSECUTIVE_DAYS_BIRTH)"

definition proto_after :: "string set \<Rightarrow> (string \<times> belief_aggregation) list \<Rightarrow> (string \<Rightarrow> int)
    \<Rightarrow> string \<Rightarrow> int" where
  "proto_after living aggs proto d =
     (case map_of aggs d of
        None \<Rightarrow> proto d
      | Some agg \<Rightarrow>
          if d \<in> living then 0
          else if birth_criteria agg
          then (if proto d + 1 \<ge> CONSECUTIVE_DAYS_BIRTH then 0 else proto d + 1)
          else 0)"

text \<open>A row as \<^verbatim>\<open>God.birth\<close> makes it on a day for a domain.\<close>

definition newborn :: "int \<Rightarrow> string \<Rightarrow> god_row \<Rightarrow> bool" where
  "newborn day d b =
     (god_domain b = d \<and> god_alive b \<and> birth_day b = day \<and> death_day b = None \<and>
      consecutive_weak_days b = 0 \<and> consecutive_strong_days b = 0)"

text \<open>The gods table after the first loop of \<^verbatim>\<open>process_gods\<close>.\<close>

definition fade_pass :: "(string \<times> belief_aggregation) list \<Rightarrow> int \<Rightarrow> god_row list \<Rightarrow> god_row list" where
  "fade_pass aggs day t =
     map (\<lambda>r. if r \<in> set (takeWhile (has_aggregation aggs) (filter god_alive t))
              then faded_row aggs day r else r) t"


text \<open>The call returned and did not raise.\<close>

definition is_ok :: "'a + 'b \<Rightarrow> bool" where
  "is_ok x = (case x of Inl _ \<Rightarrow> False | Inr _ \<Rightarrow> True)"

definition has_rowid :: "citizen_row \<Rightarrow> bool" where
  "has_rowid c = (citizen_id c \<noteq> None)"

text \<open>A citizen as genesis leaves it: alive, saved, and with values in range when
  \<^verbatim>\<open>uniform\<close> keeps its contract.\<close>

definition founded :: "'g rng_ops \<Rightarrow> citizen_row \<Rightarrow> bool" where
  "founded ops c =
     (citizen_alive c \<and> has_rowid c \<and> (uniform_in_range ops \<longrightarrow> citizen_clamped c))"

text \<open>The members that genesis gives a faction.\<close>

definition members_of :: "'g rng_ops \<Rightarrow> faction_row \<Rightarrow> citizen_row list \<Rightarrow> bool" where
  "members_of ops f grp =
     (faction_row_id f \<noteq> None \<and> length grp = INITIAL_CITIZENS_PER_FACTION \<and>
      list_all (\<lambda>c. founded ops c \<and> faction_id c = faction_row_id f) grp)"

text \<open>An omen of the river for evaluation.\<close>

definition still_waters :: event where
  "still_waters = \<lparr> event_name = ''The Still Waters'', description = ''Rivers calm to mirror-glass'',
                     primary_domain = ''river'', secondary_domain = None, fear_impact = 0,
                     gratitude_impact = 0, belief_impact = 1/2, magnitude = 1 \<rparr>"

text \<open>The same engine constructed with another narrator.\<close>

definition with_narrator :: "(tick_result \<Rightarrow> error option) option \<Rightarrow> 'g engine \<Rightarrow> 'g engine" where
  "with_narrator x st = st\<lparr> narrator := x \<rparr>"




text \<open>A narrator that always raises.\<close>

definition failing_narrator :: "tick_result \<Rightarrow> error option" where
  "failing_narrator r = Some NarratorError"


text \<open>A god system as the program leaves it: the gods table is keyed, its domains are
  among \<^verbatim>\<open>DOMAINS\<close>, and no counter is negative (counters start at 0 and are only
  incremented or reset to 0).\<close>

definition gods_wellformed :: "god_row list \<Rightarrow> bool" where
  "gods_wellformed t =
     (gods_keyed t \<and> (\<forall>r \<in> set t. god_domain r \<in> set DOMAINS \<and> 0 \<le> consecutive_weak_days r))"

definition god_system_ok :: "'g god_system \<Rightarrow> bool" where
  "god_system_ok gs =
     (gods_wellformed (gods_table (gs_db gs)) \<and> (\<forall>d. 0 \<le> proto_god_days gs d))"

text \<open>A sequence of calls of \<^verbatim>\<open>process_gods\<close> on one god system.  Each call comes with
  the dictionary of aggregations that its first statement computed from the population,
  its day, and the state in which it finds the shared generator; nothing else touches the
  gods table or the counters between two calls.\<close>

fun gods_run :: "'g rng_ops \<Rightarrow> 'g god_system
    \<Rightarrow> ((string \<times> belief_aggregation) list \<times> int \<times> 'g) list \<Rightarrow> 'g god_system" where
  "gods_run ops gs [] = gs"
| "gods_run ops gs ((aggs, day, g) # rest) =
     gods_run ops (fst (process_aggregations ops aggs day (gs\<lparr> gs_rng := g \<rparr>))) rest"

text \<open>\<open>streak ops P gs calls\<close>: every call of the sequence finds a god system and
  aggregations that satisfy \<open>P\<close>.\<close>

fun streak :: "'g rng_ops \<Rightarrow> ('g god_system \<Rightarrow> (string \<times> belief_aggregation) list \<Rightarrow> bool)
    \<Rightarrow> 'g god_system \<Rightarrow> ((string \<times> belief_aggregation) list \<times> int \<times> 'g) list \<Rightarrow> bool" where
  "streak ops P gs [] = True"
| "streak ops P gs ((aggs, day, g) # rest) =
     (P gs aggs \<and>
      streak ops P (fst (process_aggregations ops aggs day (gs\<lparr> gs_rng := g \<rparr>))) rest)"

text \<open>The dictionary has the six domains as keys, as \<^verbatim>\<open>aggregate_beliefs\<close> builds it; the
  domain has no living god; the mean belief and the coherence reported for the domain
  pass the two comparisons of the birth branch.\<close>

definition ascending :: "string \<Rightarrow> 'g god_system \<Rightarrow> (string \<times> belief_aggregation) list \<Rightarrow> bool" where
  "ascending d gs aggs =
     (map fst aggs = DOMAINS \<and>
      d \<notin> living_domains_of (gods_table (gs_db gs)) \<and>
      (case map_of aggs d of
         None \<Rightarrow> False
       | Some agg \<Rightarrow> average_belief agg \<ge> BELIEF_THRESHOLD \<and>
                     agg_coherence agg \<ge> COHERENCE_THRESHOLD))"

text \<open>The dictionary has the six domains as keys; the god with rowid \<open>i\<close> is alive; the
  mean belief reported for its domain is below the fade threshold.\<close>

definition waning :: "int \<Rightarrow> 'g god_system \<Rightarrow> (string \<times> belief_aggregation) list \<Rightarrow> bool" where
  "waning i gs aggs =
     (map fst aggs = DOMAINS \<and>
      (\<exists>r \<in> set (gods_table (gs_db gs)).
         god_id r = Some i \<and> god_alive r \<and>
         (case map_of aggs (god_domain r) of
            None \<Rightarrow> False
          | Some agg \<Rightarrow> average_belief agg < FADE_THRESHOLD)))"

text \<open>For evaluation: a god system whose table holds a living god of the sky, and calls
  on the days 1 to \<open>n\<close> with the aggregations of a population of one citizen who
  believes in the river only.\<close>

definition sky_pantheon :: "nat god_system" where
  "sky_pantheon =
     \<lparr> gs_db = empty_db\<lparr> gods_table :=
                  [\<lparr> god_id = Some 7, god_name = ''Aelus'', god_domain = ''sky'',
                     belief_strength = 7/10, god_coherence = 9/10, god_alive = True,
                     birth_day = 12, death_day = None, consecutive_strong_days = 3,
                     consecutive_weak_days = 0 \<rparr>] \<rparr>,
       gs_rng = 0, proto_god_days = (\<lambda>d. 0) \<rparr>"

definition river_days :: "nat \<Rightarrow> ((string \<times> belief_aggregation) list \<times> int \<times> nat) list" where
  "river_days n = map (\<lambda>k. (aggregate_beliefs [believer 1], int k, 0)) [1..<Suc n]"

section \<open>Properties of the era clock\<close>

lemma age_of_value_age_value: "age_of_value (age_value a) = Inr a"
  by (cases a) (simp_all add: age_of_value_def age_cycle_def)

lemma traits_min_le_max: "min_days (AGE_TRAITS a) \<le> max_days (AGE_TRAITS a)"
  by (cases a) simp_all

lemma traits_min_pos: "0 < min_days (AGE_TRAITS a)"
  by (cases a) simp_all

lemma am_new_in_bounds:
  assumes "randint_in_range ops"
  shows "clock_in_bounds (fst (am_new ops g))"
proof -
  obtain d g' where r: "rng_randint ops 20 40 g = (d, g')"
    by (cases "rng_randint ops 20 40 g")
  from assms have "20 \<le> fst (rng_randint ops 20 40 g) \<and> fst (rng_randint ops 20 40 g) \<le> 40"
    unfolding randint_in_range_def by simp
  with r have "20 \<le> d" "d \<le> 40" by simp_all
  with r show ?thesis by (simp add: am_new_def clock_in_bounds_def)
qed

lemma am_transition_in_bounds:
  assumes "randint_in_range ops"
  shows "clock_in_bounds (fst (snd (am_transition ops am g)))"
proof -
  let ?a = "age_next (current_age am)"
  let ?lo = "min_days (AGE_TRAITS ?a)" and ?hi = "max_days (AGE_TRAITS ?a)"
  obtain d g' where r: "rng_randint ops ?lo ?hi g = (d, g')"
    by (cases "rng_randint ops ?lo ?hi g")
  from assms traits_min_le_max [of ?a]
  have "?lo \<le> fst (rng_randint ops ?lo ?hi g) \<and> fst (rng_randint ops ?lo ?hi g) \<le> ?hi"
    unfolding randint_in_range_def by blast
  with r have "?lo \<le> d" "d \<le> ?hi" by simp_all
  moreover from \<open>?lo \<le> d\<close> traits_min_pos [of ?a] have "0 < d" by linarith
  ultimately show ?thesis using r
    by (simp add: am_transition_def clock_in_bounds_def Let_def)
qed

lemma am_tick_in_bounds:
  assumes "randint_in_range ops" and "clock_in_bounds am"
  shows "clock_in_bounds (fst (snd (am_tick ops am g)))"
proof (cases "day_counter am + 1 \<ge> age_duration am")
  case True
  then have "fst (snd (am_tick ops am g)) =
             fst (snd (am_transition ops (am\<lparr> day_counter := day_counter am + 1 \<rparr>) g))"
    by (simp add: am_tick_def Let_def split: prod.splits)
  then show ?thesis using am_transition_in_bounds [OF assms(1)] by simp
next
  case False
  then have "fst (snd (am_tick ops am g)) = am\<lparr> day_counter := day_counter am + 1 \<rparr>"
    by (simp add: am_tick_def Let_def)
  with False assms(2) show ?thesis by (simp add: clock_in_bounds_def)
qed

lemma from_state_in_bounds:
  assumes "clock_in_bounds am"
  shows "\<exists>am'. from_state (age_value (current_age am)) (day_counter am) = Inr am' \<and>
               clock_in_bounds am'"
  using assms by (simp add: from_state_def age_of_value_age_value clock_in_bounds_def Let_def)

lemma clock_after_in_bounds:
  assumes "randint_in_range ops"
  shows "clock_in_bounds am \<Longrightarrow> \<exists>am'. clock_after ops am steps = Inr am' \<and> clock_in_bounds am'"
proof (induction steps arbitrary: am)
  case Nil
  then show ?case by simp
next
  case (Cons s steps)
  show ?case
  proof (cases s)
    case (Advance g)
    from am_tick_in_bounds [OF assms Cons.prems]
    have "clock_in_bounds (fst (snd (am_tick ops am g)))" .
    from Cons.IH [OF this] Advance show ?thesis by simp
  next
    case Restore
    from from_state_in_bounds [OF Cons.prems] obtain am1
      where r: "from_state (age_value (current_age am)) (day_counter am) = Inr am1"
        and b: "clock_in_bounds am1" by blast
    from Cons.IH [OF b] r Restore show ?thesis by simp
  qed
qed

lemma count_rng_randint: "randint_in_range count_rng"
  by (simp add: randint_in_range_def count_rng_def)

text \<open>
  C6. Era clock bounds.  Take a clock created at genesis with any generator state and let
  it live through any sequence of one-day advances and of persist-and-restore steps (the
  restored pair being the one the clock held).  Every such sequence can be carried out
  (restoration never raises), and the clock it leaves satisfies
  \<open>0 \<le> day_counter < age_duration\<close> with \<open>age_duration\<close> inside the
  \<open>[min_days, max_days]\<close> range of its current age.  As the sequence is arbitrary, this
  holds on return from each single advance.  The only fact used about the generator is
  that \<^verbatim>\<open>randint(a, b)\<close> returns a value between \<open>a\<close> and \<open>b\<close>.
\<close>

theorem era_clock_bounds:
  assumes "randint_in_range ops"
  shows "\<exists>am. clock_after ops (fst (am_new ops g0)) steps = Inr am \<and>
              0 \<le> day_counter am \<and> day_counter am < age_duration am \<and>
              min_days (AGE_TRAITS (current_age am)) \<le> age_duration am \<and>
              age_duration am \<le> max_days (AGE_TRAITS (current_age am))"
  using clock_after_in_bounds [OF assms am_new_in_bounds [OF assms], of g0 steps]
  by (simp add: clock_in_bounds_def)

theorem era_clock_bounds_witness:
  "randint_in_range count_rng \<and>
   (\<exists>am. clock_after count_rng (fst (am_new count_rng 0)) [Advance 1, Restore, Advance 2] = Inr am \<and>
         0 \<le> day_counter am \<and> day_counter am < age_duration am \<and>
         min_days (AGE_TRAITS (current_age am)) \<le> age_duration am \<and>
         age_duration am \<le> max_days (AGE_TRAITS (current_age am)))"
  using count_rng_randint
    era_clock_bounds [OF count_rng_randint, of 0 "[Advance 1, Restore, Advance 2]"]
  by blast

text \<open>
  C7. Era-clock restoration.  For every age and every persisted day counter, rebuilding a
  clock from the age's stored name and that counter succeeds and gives a clock in that
  age, with that counter, whose duration is \<open>max (counter + 1) min_days\<close>.
\<close>

theorem from_state_duration:
  "from_state (age_value a) d =
     Inr \<lparr> current_age = a, day_counter = d,
           age_duration = max (d + 1) (min_days (AGE_TRAITS a)) \<rparr>"
  by (simp add: from_state_def age_of_value_age_value Let_def)

section \<open>Belief aggregation\<close>

lemma map_of_tabulate:
  "map_of (map (\<lambda>d. (d, f d)) ds) d = (if d \<in> set ds then Some (f d) else None)"
  by (induction ds) auto

lemma aggregate_beliefs_lookup:
  "d \<in> set DOMAINS \<Longrightarrow> map_of (aggregate_beliefs cs) d = Some (aggregate_domain cs d)"
  by (simp add: aggregate_beliefs_def map_of_tabulate)

lemma aggregate_beliefs_lookup_None:
  "d \<notin> set DOMAINS \<Longrightarrow> map_of (aggregate_beliefs cs) d = None"
  by (simp add: aggregate_beliefs_def map_of_tabulate)

text \<open>
  C9. Belief aggregation.  For every domain and every population whose citizens are all
  alive, the entry of that domain in the dictionary returned by \<^verbatim>\<open>aggregate_beliefs\<close>
  has as \<open>average_belief\<close> the arithmetic average of the living citizens' belief values in
  the domain and as coherence \<open>max 0 (1 - 4 * variance)\<close> of the same values, with the
  population variance, when the population is not empty; both are 0 when it is empty.
  (Floats are read as reals.  A citizen without an entry for the domain counts with the
  value 0, as \<^verbatim>\<open>belief_vector.get(domain, 0.0)\<close> does.)
\<close>

theorem aggregation_mean_coherence:
  assumes "d \<in> set DOMAINS" and "list_all citizen_alive cs"
  shows "\<exists>agg. map_of (aggregate_beliefs cs) d = Some agg \<and>
           (cs \<noteq> [] \<longrightarrow>
              average_belief agg = arithmetic_mean (living_beliefs cs d) \<and>
              agg_coherence agg = max 0 (1 - 4 * population_variance (living_beliefs cs d))) \<and>
           (cs = [] \<longrightarrow> average_belief agg = 0 \<and> agg_coherence agg = 0)"
proof -
  from assms(2) have "filter citizen_alive cs = cs"
    by (simp add: list_all_iff)
  then have lb: "living_beliefs cs d = map (\<lambda>c. dict_get (belief_vector c) d 0) cs"
    by (simp add: living_beliefs_def)
  show ?thesis
    using aggregate_beliefs_lookup [OF assms(1), of cs]
    by (simp add: lb aggregate_domain_def Let_def arithmetic_mean_def population_variance_def
        mult.commute)
qed

theorem aggregation_mean_coherence_witness:
  "''river'' \<in> set DOMAINS \<and> list_all citizen_alive [believer 1, believer 0] \<and>
   (\<exists>agg. map_of (aggregate_beliefs [believer 1, believer 0]) ''river'' = Some agg \<and>
          average_belief agg = 1/2 \<and> agg_coherence agg = 0)"
proof -
  have d: "''river'' \<in> set DOMAINS" by (simp add: DOMAINS_def)
  have a: "list_all citizen_alive [believer 1, believer 0]" by (simp add: believer_def)
  have m: "arithmetic_mean (living_beliefs [believer 1, believer 0] ''river'') = 1/2"
    by (simp add: arithmetic_mean_def living_beliefs_def believer_def dict_get_def)
  have v: "population_variance (living_beliefs [believer 1, believer 0] ''river'') = 1/4"
    by (simp add: population_variance_def arithmetic_mean_def living_beliefs_def believer_def
        dict_get_def power2_eq_square)
  from aggregation_mean_coherence [OF d a] m v d a show ?thesis by auto
qed

section \<open>The god system\<close>

lemma check_fade_id [simp]: "god_id (fst (check_fade agg day r)) = god_id r"
  by (simp add: check_fade_def Let_def update_strength_def fade_def)

lemma check_fade_domain [simp]: "god_domain (fst (check_fade agg day r)) = god_domain r"
  by (simp add: check_fade_def Let_def update_strength_def fade_def)

lemma check_fade_alive: "god_alive (fst (check_fade agg day r)) \<Longrightarrow> god_alive r"
  by (simp add: check_fade_def Let_def update_strength_def fade_def split: if_splits)

lemma faded_row_id [simp]: "god_id (faded_row aggs day r) = god_id r"
  by (simp add: faded_row_def split: option.splits)

lemma faded_row_domain [simp]: "god_domain (faded_row aggs day r) = god_domain r"
  by (simp add: faded_row_def split: option.splits)

lemma faded_row_alive: "god_alive (faded_row aggs day r) \<Longrightarrow> god_alive r"
  by (auto simp: faded_row_def check_fade_alive split: option.splits)

lemma keyed_same_id:
  assumes "gods_keyed t" and "r \<in> set t" and "r' \<in> set t" and "god_id r = god_id r'"
  shows "r = r'"
proof -
  from assms(1) have "inj_on god_id (set t)"
    by (simp add: gods_keyed_def distinct_map)
  from inj_onD [OF this assms(4) assms(2) assms(3)] show ?thesis .
qed

lemma save_god_update:
  assumes "gods_keyed (gods_table db)" and "r \<in> set (gods_table db)" and "god_id r' = god_id r"
  shows "save_god db r' = (db\<lparr> gods_table := map (\<lambda>x. if x = r then r' else x) (gods_table db) \<rparr>, r')"
proof -
  from assms(2) have "god_id r \<in> set (map god_id (gods_table db))" by simp
  with assms(1) have "god_id r \<noteq> None" unfolding gods_keyed_def by metis
  then obtain i where i: "god_id r = Some i" by auto
  have eq: "map (\<lambda>x. if god_id x = Some i then r' else x) (gods_table db) =
        map (\<lambda>x. if x = r then r' else x) (gods_table db)"
  proof (rule map_cong [OF refl])
    fix x assume x: "x \<in> set (gods_table db)"
    have "god_id x = Some i \<longleftrightarrow> x = r"
      using keyed_same_id [OF assms(1) x assms(2)] i by auto
    then show "(if god_id x = Some i then r' else x) = (if x = r then r' else x)"
      by simp
  qed
  have r': "god_id r' = Some i" using assms(3) i by simp
  show ?thesis unfolding save_god_def r' eq [symmetric] by simp
qed

lemma keyed_map:
  assumes "gods_keyed t" and "\<And>r. god_id (f r) = god_id r"
  shows "gods_keyed (map f t)"
proof -
  have eq: "map god_id (map f t) = map god_id t" by (simp add: assms(2))
  from assms(1) show ?thesis unfolding gods_keyed_def eq .
qed

text \<open>The table after the first loop: the gods of the list before the first one without
  aggregation are replaced by their updated rows.\<close>

lemma check_existing_table:
  assumes "gods_keyed (gods_table db)" and "set gods \<subseteq> set (gods_table db)" and "distinct gods"
  shows "fst (check_existing aggs day gods db) =
           db\<lparr> gods_table :=
                 map (\<lambda>r. if r \<in> set (takeWhile (has_aggregation aggs) gods)
                          then faded_row aggs day r else r) (gods_table db) \<rparr>"
  using assms
proof (induction gods arbitrary: db)
  case Nil
  then show ?case by simp
next
  case (Cons god gods)
  show ?case
  proof (cases "map_of aggs (god_domain god)")
    case None
    then show ?thesis by (simp add: has_aggregation_def)
  next
    case (Some agg)
    let ?t = "gods_table db"
    obtain r1 f1 where cf: "check_fade agg day god = (r1, f1)"
      by (cases "check_fade agg day god")
    let ?r' = "r1"
    have fr: "faded_row aggs day god = ?r'" by (simp add: faded_row_def Some cf)
    have r1_id: "god_id r1 = god_id god" using check_fade_id [of agg day god] cf by simp
    have god_in: "god \<in> set ?t" using Cons.prems(2) by simp
    let ?t1 = "map (\<lambda>x. if x = god then ?r' else x) ?t"
    let ?db1 = "db\<lparr> gods_table := ?t1 \<rparr>"
    have sv: "save_god db ?r' = (?db1, ?r')"
      by (rule save_god_update [OF Cons.prems(1) god_in r1_id])
    have k1: "gods_keyed (gods_table ?db1)"
      using keyed_map [OF Cons.prems(1), of "\<lambda>x. if x = god then ?r' else x"] r1_id by simp
    have notin: "god \<notin> set gods" using Cons.prems(3) by simp
    have sub1: "set gods \<subseteq> set (gods_table ?db1)"
    proof
      fix x assume x: "x \<in> set gods"
      with Cons.prems(2) have "x \<in> set ?t" by auto
      moreover from x notin have "x \<noteq> god" by auto
      ultimately have "(\<lambda>x. if x = god then r1 else x) x \<in> (\<lambda>x. if x = god then r1 else x) ` set ?t"
        by (rule_tac imageI)
      with \<open>x \<noteq> god\<close> show "x \<in> set (gods_table ?db1)" by simp
    qed
    have d1: "distinct gods" using Cons.prems(3) by simp
    note IH = Cons.IH [OF k1 sub1 d1]
    have r'_notin: "?r' \<notin> set gods \<or> ?r' = god"
    proof (rule ccontr)
      assume "\<not> ?thesis"
      then have a: "?r' \<in> set gods" and b: "?r' \<noteq> god" by auto
      from a Cons.prems(2) have "?r' \<in> set ?t" by auto
      from keyed_same_id [OF Cons.prems(1) this god_in] b r1_id show False by simp
    qed
    have step: "fst (check_existing aggs day (god # gods) db) = fst (check_existing aggs day gods ?db1)"
    proof -
      have "check_existing aggs day (god # gods) db =
            (case check_existing aggs day gods ?db1 of
               (db2, Inl e) \<Rightarrow> (db2, Inl e)
             | (db2, Inr (existing, faded)) \<Rightarrow>
                 (db2, Inr (r1 # existing, if f1 then r1 # faded else faded)))"
        by (simp add: Some cf sv)
      then show ?thesis
        by (simp split: prod.splits sum.splits)
    qed
    have tw: "takeWhile (has_aggregation aggs) (god # gods) = god # takeWhile (has_aggregation aggs) gods"
      using Some by (simp add: has_aggregation_def)
    let ?P = "set (takeWhile (has_aggregation aggs) gods)"
    have Psub: "?P \<subseteq> set gods" by (auto dest: set_takeWhileD)
    have "map (\<lambda>r. if r \<in> ?P then faded_row aggs day r else r) ?t1 =
          map (\<lambda>r. if r \<in> insert god ?P then faded_row aggs day r else r) ?t"
      unfolding map_map
    proof (rule map_cong [OF refl])
      fix x assume "x \<in> set ?t"
      show "((\<lambda>r. if r \<in> ?P then faded_row aggs day r else r) \<circ> (\<lambda>x. if x = god then ?r' else x)) x =
            (if x \<in> insert god ?P then faded_row aggs day x else x)"
      proof (cases "x = god")
        case True
        from r'_notin Psub notin have "?r' \<notin> ?P" by auto
        with True fr show ?thesis by simp
      next
        case False
        then show ?thesis by simp
      qed
    qed
    then show ?thesis unfolding step IH tw by simp
  qed
qed

lemma save_god_snd: "god_id r \<noteq> None \<Longrightarrow> snd (save_god db r) = r"
  by (cases "god_id r") (simp_all add: save_god_def)

lemma check_existing_outcome:
  assumes "\<forall>g \<in> set gods. god_id g \<noteq> None"
  shows "snd (check_existing aggs day gods db) =
           (case find (\<lambda>g. \<not> has_aggregation aggs g) gods of
              Some g \<Rightarrow> Inl (KeyError (god_domain g))
            | None \<Rightarrow> Inr (map (faded_row aggs day) gods,
                           map (faded_row aggs day) (filter (fades aggs day) gods)))"
  using assms
proof (induction gods arbitrary: db)
  case Nil
  then show ?case by simp
next
  case (Cons god gods)
  show ?case
  proof (cases "map_of aggs (god_domain god)")
    case None
    then show ?thesis by (simp add: has_aggregation_def)
  next
    case (Some agg)
    obtain r1 f1 where cf: "check_fade agg day god = (r1, f1)"
      by (cases "check_fade agg day god")
    have r1_id: "god_id r1 \<noteq> None"
      using check_fade_id [of agg day god] cf Cons.prems by simp
    obtain db1 where sv: "save_god db r1 = (db1, r1)"
      using save_god_snd [OF r1_id, of db] by (cases "save_god db r1") simp
    have rest: "\<forall>g \<in> set gods. god_id g \<noteq> None" using Cons.prems by simp
    have unf: "check_existing aggs day (god # gods) db =
            (case check_existing aggs day gods db1 of
               (db2, Inl e) \<Rightarrow> (db2, Inl e)
             | (db2, Inr (existing, faded)) \<Rightarrow>
                 (db2, Inr (r1 # existing, if f1 then r1 # faded else faded)))"
      by (simp add: Some cf sv)
    have ha: "has_aggregation aggs god" by (simp add: has_aggregation_def Some)
    have fr: "faded_row aggs day god = r1" by (simp add: faded_row_def Some cf)
    have fd: "fades aggs day god = f1" by (simp add: fades_def Some cf)
    obtain db2 out where ce: "check_existing aggs day gods db1 = (db2, out)"
      by (cases "check_existing aggs day gods db1")
    from Cons.IH [OF rest, of db1] ce
    have out: "out = (case find (\<lambda>g. \<not> has_aggregation aggs g) gods of
              Some g \<Rightarrow> Inl (KeyError (god_domain g))
            | None \<Rightarrow> Inr (map (faded_row aggs day) gods,
                           map (faded_row aggs day) (filter (fades aggs day) gods)))"
      by simp
    show ?thesis
      unfolding unf ce
      by (simp add: out ha fr fd split: option.splits)
  qed
qed

lemma exclusive_map:
  assumes "\<And>r. god_domain (f r) = god_domain r" and "\<And>r. god_alive (f r) \<Longrightarrow> god_alive r"
  shows "living_domains_of (map f t) \<subseteq> living_domains_of t \<and>
         (one_god_per_domain t \<longrightarrow> one_god_per_domain (map f t))"
proof (induction t)
  case Nil
  then show ?case by (simp add: living_domains_of_def one_god_per_domain_def)
next
  case (Cons r t)
  have sub: "living_domains_of (map f t) \<subseteq> living_domains_of t" using Cons.IH by simp
  show ?case
  proof (cases "god_alive (f r)")
    case True
    then have "god_alive r" by (rule assms(2))
    with True sub Cons.IH show ?thesis
      by (auto simp: living_domains_of_def one_god_per_domain_def assms(1))
  next
    case False
    with sub Cons.IH show ?thesis
      by (auto simp: living_domains_of_def one_god_per_domain_def)
  qed
qed

lemma max_rowid_ge: "Some i \<in> set ids \<Longrightarrow> i \<le> max_rowid ids"
  by (induction ids rule: max_rowid.induct) auto

lemma lastrowid_fresh: "Some (lastrowid ids) \<notin> set ids"
  using max_rowid_ge [of "lastrowid ids" ids] by (auto simp: lastrowid_def)

lemma keyed_append:
  "gods_keyed t \<Longrightarrow> god_id b = Some (lastrowid (map god_id t)) \<Longrightarrow> gods_keyed (t @ [b])"
  using lastrowid_fresh [of "map god_id t"] by (simp add: gods_keyed_def)

lemma check_birth_proto:
  "proto_god_days (fst (check_birth ops living day d agg gs)) =
     (proto_god_days gs)(d := proto_after living [(d, agg)] (proto_god_days gs) d)"
  by (simp add: check_birth_def proto_after_def birth_criteria_def Let_def split: prod.splits)

lemma check_birth_None:
  "\<not> birth_due living (proto_god_days gs) (d, agg) \<Longrightarrow>
   snd (check_birth ops living day d agg gs) = None \<and>
   gs_db (fst (check_birth ops living day d agg gs)) = gs_db gs"
  by (auto simp: check_birth_def birth_due_def birth_criteria_def Let_def split: prod.splits)

lemma check_birth_Some:
  assumes "birth_due living (proto_god_days gs) (d, agg)"
  shows "\<exists>b. snd (check_birth ops living day d agg gs) = Some b \<and> newborn day d b \<and>
             god_id b = Some (lastrowid (map god_id (gods_table (gs_db gs)))) \<and>
             gs_db (fst (check_birth ops living day d agg gs)) =
               (gs_db gs)\<lparr> gods_table := gods_table (gs_db gs) @ [b] \<rparr>"
  using assms
  by (simp add: check_birth_def birth_due_def birth_criteria_def Let_def god_birth_def
      save_god_def newborn_def split: prod.splits)


lemma proto_after_Cons:
  "map_of rest d = None \<Longrightarrow>
   proto_after living rest ((proto)(d := proto_after living [(d, agg)] proto d)) =
   proto_after living ((d, agg) # rest) proto"
  by (rule ext) (simp add: proto_after_def split: option.splits)

lemma birth_due_upd:
  "fst e \<noteq> d \<Longrightarrow> birth_due living (proto(d := v)) e = birth_due living proto e"
  by (simp add: birth_due_def)

lemma check_births_effect:
  assumes "distinct (map fst aggs)"
  shows "gs_db (fst (check_births ops living day aggs gs)) =
           (gs_db gs)\<lparr> gods_table := gods_table (gs_db gs) @ snd (check_births ops living day aggs gs) \<rparr> \<and>
         list_all2 (\<lambda>e b. newborn day (fst e) b)
           (filter (birth_due living (proto_god_days gs)) aggs)
           (snd (check_births ops living day aggs gs)) \<and>
         proto_god_days (fst (check_births ops living day aggs gs)) =
           proto_after living aggs (proto_god_days gs) \<and>
         (gods_keyed (gods_table (gs_db gs)) \<longrightarrow>
            gods_keyed (gods_table (gs_db gs) @ snd (check_births ops living day aggs gs)))"
  using assms
proof (induction aggs arbitrary: gs)
  case Nil
  have "proto_after living [] (proto_god_days gs) = proto_god_days gs"
    by (rule ext) (simp add: proto_after_def)
  then show ?case by simp
next
  case (Cons e rest)
  obtain d agg where e: "e = (d, agg)" by (cases e)
  obtain gs1 nb where cb: "check_birth ops living day d agg gs = (gs1, nb)"
    by (cases "check_birth ops living day d agg gs")
  obtain gs2 born where rec: "check_births ops living day rest gs1 = (gs2, born)"
    by (cases "check_births ops living day rest gs1")
  have res: "check_births ops living day (e # rest) gs =
             (gs2, (case nb of None \<Rightarrow> born | Some god \<Rightarrow> god # born))"
    by (simp add: e cb rec)
  from Cons.prems e have d_rest: "d \<notin> set (map fst rest)" and dist: "distinct (map fst rest)"
    by simp_all
  have mo: "map_of rest d = None"
    using d_rest by (simp add: map_of_eq_None_iff)
  have p1: "proto_god_days gs1 = (proto_god_days gs)(d := proto_after living [(d, agg)] (proto_god_days gs) d)"
    using check_birth_proto [of ops living day d agg gs] cb by simp
  have fl: "filter (birth_due living (proto_god_days gs1)) rest =
            filter (birth_due living (proto_god_days gs)) rest"
  proof (rule filter_cong [OF refl])
    fix x assume "x \<in> set rest"
    with d_rest have "fst x \<noteq> d" by auto
    then show "birth_due living (proto_god_days gs1) x = birth_due living (proto_god_days gs) x"
      unfolding p1 by (rule birth_due_upd)
  qed
  note IH = Cons.IH [OF dist, of gs1, unfolded rec fst_conv snd_conv fl]
  have pa: "proto_god_days gs2 = proto_after living (e # rest) (proto_god_days gs)"
    unfolding IH [THEN conjunct2, THEN conjunct2, THEN conjunct1] p1 e
    by (rule proto_after_Cons [OF mo])
  show ?case
  proof (cases "birth_due living (proto_god_days gs) (d, agg)")
    case False
    from check_birth_None [OF False, of ops day] cb
    have nb: "nb = None" and db1: "gs_db gs1 = gs_db gs" by simp_all
    from IH pa show ?thesis
      unfolding res by (simp add: nb db1 e False)
  next
    case True
    from check_birth_Some [OF True, of ops day] cb obtain b where
      nb: "nb = Some b" and nbk: "newborn day d b" and
      bid: "god_id b = Some (lastrowid (map god_id (gods_table (gs_db gs))))" and
      db1: "gs_db gs1 = (gs_db gs)\<lparr> gods_table := gods_table (gs_db gs) @ [b] \<rparr>"
      by auto
    have k: "gods_keyed (gods_table (gs_db gs)) \<Longrightarrow> gods_keyed (gods_table (gs_db gs1))"
      unfolding db1 using keyed_append [OF _ bid] by simp
    from IH pa k show ?thesis
      unfolding res by (simp add: nb db1 e True nbk)
  qed
qed

lemma keyed_distinct: "gods_keyed t \<Longrightarrow> distinct t"
  by (simp add: gods_keyed_def distinct_map)

lemma keyed_ids: "gods_keyed t \<Longrightarrow> r \<in> set t \<Longrightarrow> god_id r \<noteq> None"
  by (metis gods_keyed_def imageI set_map)

lemma fade_pass_keyed: "gods_keyed t \<Longrightarrow> gods_keyed (fade_pass aggs day t)"
  unfolding fade_pass_def by (rule keyed_map) simp_all


lemma fade_pass_all:
  assumes "find (\<lambda>g. \<not> has_aggregation aggs g) (filter god_alive t) = None"
  shows "fade_pass aggs day t = map (\<lambda>r. if god_alive r then faded_row aggs day r else r) t"
proof -
  from assms have "\<forall>g \<in> set (filter god_alive t). has_aggregation aggs g"
    by (simp add: find_None_iff)
  then have tw: "takeWhile (has_aggregation aggs) (filter god_alive t) = filter god_alive t"
    by (simp add: takeWhile_eq_all_conv)
  show ?thesis unfolding fade_pass_def tw by (rule map_cong [OF refl]) simp
qed

lemma fade_pass_living:
  assumes "find (\<lambda>g. \<not> has_aggregation aggs g) (filter god_alive t) = None"
  shows "set (map god_domain (filter god_alive (map (faded_row aggs day) (filter god_alive t)))) =
         living_domains_of (fade_pass aggs day t)"
proof -
  have "map god_domain (filter god_alive (map (faded_row aggs day) (filter god_alive t))) =
        map god_domain (filter god_alive (map (\<lambda>r. if god_alive r then faded_row aggs day r else r) t))"
    by (induction t) simp_all
  then show ?thesis
    unfolding fade_pass_all [OF assms] living_domains_of_def by (rule arg_cong)
qed

lemma process_aggregations_unfold:
  assumes "gods_keyed (gods_table (gs_db gs))"
  shows "process_aggregations ops A day gs =
     (let aggs = A;
          alive = filter god_alive (gods_table (gs_db gs));
          gs1 = gs\<lparr> gs_db := (gs_db gs)\<lparr> gods_table := fade_pass aggs day (gods_table (gs_db gs)) \<rparr> \<rparr>
      in case find (\<lambda>g. \<not> has_aggregation aggs g) alive of
           Some g \<Rightarrow> (gs1, Inl (KeyError (god_domain g)))
         | None \<Rightarrow>
             (fst (check_births ops (living_domains_of (gods_table (gs_db gs1))) day aggs gs1),
              Inr (snd (check_births ops (living_domains_of (gods_table (gs_db gs1))) day aggs gs1),
                   map (faded_row aggs day) (filter (fades aggs day) alive))))"
proof -
  let ?t = "gods_table (gs_db gs)"
  let ?aggs = "A"
  let ?alive = "filter god_alive ?t"
  have sub: "set ?alive \<subseteq> set ?t" by auto
  have dist: "distinct ?alive" using keyed_distinct [OF assms] by simp
  have ids: "\<forall>g \<in> set ?alive. god_id g \<noteq> None" using keyed_ids [OF assms] by simp
  have ce: "check_existing ?aggs day ?alive (gs_db gs) =
        ((gs_db gs)\<lparr> gods_table := fade_pass ?aggs day ?t \<rparr>,
         (case find (\<lambda>g. \<not> has_aggregation ?aggs g) ?alive of
              Some g \<Rightarrow> Inl (KeyError (god_domain g))
            | None \<Rightarrow> Inr (map (faded_row ?aggs day) ?alive,
                           map (faded_row ?aggs day) (filter (fades ?aggs day) ?alive))))"
    using check_existing_table [OF assms sub dist, of ?aggs day]
      check_existing_outcome [OF ids, of ?aggs day "gs_db gs"]
    unfolding fade_pass_def by (simp add: prod_eq_iff)
  show ?thesis
  proof (cases "find (\<lambda>g. \<not> has_aggregation ?aggs g) ?alive")
    case None
    show ?thesis
      unfolding process_aggregations_def get_all_gods_def
      by (simp add: ce None Let_def fade_pass_living [OF None] split_beta del: set_map set_filter)
  next
    case (Some g)
    show ?thesis
      unfolding process_aggregations_def get_all_gods_def
      by (simp add: ce Some Let_def)
  qed
qed



lemma DOMAINS_distinct: "distinct DOMAINS"
  by (simp add: DOMAINS_def)








section \<open>The engine\<close>

lemma tick_phases:
  "tick ops st =
     (case event_phase ops st of
        (transition, ev, myths, st4) \<Rightarrow>
          (case gods_phase ops st4 of
             (st5, Inl e) \<Rightarrow> (st5, Inl e)
           | (st5, Inr (born, faded)) \<Rightarrow>
               (persist_phase st5,
                narrate (persist_phase st5)
                  (tick_result_of (persist_phase st5) transition ev myths born faded))))"
  by (simp add: tick_def event_phase_def gods_phase_def persist_phase_def tick_result_of_def
      narrate_def Let_def split: prod.splits sum.splits option.splits)

lemma clamp_in_unit: "in_unit (max 0 (min 1 x))"
  by (simp add: in_unit_def)

lemma update_belief_clamped: "citizen_clamped c \<Longrightarrow> citizen_clamped (update_belief c d delta b)"
  by (simp add: citizen_clamped_def update_belief_def Let_def clamp_in_unit)

lemma update_emotion_clamped:
  "(\<forall>d v. belief_vector c d = Some v \<longrightarrow> in_unit v) \<Longrightarrow> citizen_clamped (update_emotion c fd gd)"
  by (simp add: citizen_clamped_def update_emotion_def Let_def clamp_in_unit)

lemma apply_event_citizen_clamped:
  assumes "citizen_clamped c"
  shows "citizen_clamped (fst (apply_event_citizen ops ev traits fs c g))"
proof -
  have "\<And>c. citizen_clamped c \<Longrightarrow> (\<forall>d v. belief_vector c d = Some v \<longrightarrow> in_unit v)"
    by (simp add: citizen_clamped_def)
  then show ?thesis using assms
    by (auto simp: apply_event_citizen_def Let_def split: prod.splits option.splits
        intro!: update_emotion_clamped update_belief_clamped)
qed

lemma apply_event_loop_clamped:
  "list_all citizen_clamped cs \<Longrightarrow>
   list_all citizen_clamped (fst (apply_event_loop ops ev traits fs cs g))"
proof (induction cs arbitrary: g)
  case Nil
  then show ?case by simp
next
  case (Cons c cs)
  obtain c' g1 where a: "apply_event_citizen ops ev traits fs c g = (c', g1)"
    by (cases "apply_event_citizen ops ev traits fs c g")
  obtain cs' g2 where l: "apply_event_loop ops ev traits fs cs g1 = (cs', g2)"
    by (cases "apply_event_loop ops ev traits fs cs g1")
  from Cons.prems have "citizen_clamped c" and rest: "list_all citizen_clamped cs" by simp_all
  from apply_event_citizen_clamped [OF this(1), of ops ev traits fs g] a
  have "citizen_clamped c'" by simp
  moreover from Cons.IH [OF rest, of g1] l have "list_all citizen_clamped cs'" by simp
  ultimately show ?case using a l by simp
qed

lemma save_citizen_row: "saved_as c (snd (save_citizen db c))"
  by (cases "citizen_id c") (auto simp: save_citizen_def Let_def saved_as_def)

lemma save_citizens_rows: "list_all2 saved_as cs (snd (save_citizens db cs))"
proof (induction cs arbitrary: db)
  case Nil
  then show ?case by simp
next
  case (Cons c cs)
  obtain db1 c1 where a: "save_citizen db c = (db1, c1)"
    by (cases "save_citizen db c")
  obtain db2 cs1 where l: "save_citizens db1 cs = (db2, cs1)"
    by (cases "save_citizens db1 cs")
  from save_citizen_row [of c db] a have "saved_as c c1" by simp
  moreover from Cons.IH [of db1] l have "list_all2 saved_as cs cs1" by simp
  ultimately show ?case using a l by simp
qed

lemma is_ok_Inr: "is_ok x \<Longrightarrow> \<exists>y. x = Inr y"
  by (cases x) (simp_all add: is_ok_def)








lemma count_rng_genesis: "is_ok (initialize count_rng empty_db 42 None True)"
  by code_simp


lemma event_phase_citizens:
  assumes "event_phase ops st = (tr, ev, myths, st4)"
  shows "citizens st4 = citizens st \<or>
         (\<exists>e traits g. citizens st4 = fst (apply_event_loop ops e traits (factions st) (citizens st) g))"
proof (cases ev)
  case None
  with assms show ?thesis
    by (auto simp: event_phase_def Let_def split_beta)
next
  case (Some e)
  with assms have "citizens st4 =
      fst (apply_event_loop ops e (AGE_TRAITS (current_age (fst (snd (am_tick ops (age_mgr st) (e_rng st))))))
             (factions st) (citizens st)
             (snd (generate_event ops (current_age (fst (snd (am_tick ops (age_mgr st) (e_rng st)))))
                (event_rate (AGE_TRAITS (current_age (fst (snd (am_tick ops (age_mgr st) (e_rng st)))))))
                (snd (snd (am_tick ops (age_mgr st) (e_rng st)))))))"
    by (auto simp: event_phase_def Let_def split_beta create_myths_def apply_event_def)
  then show ?thesis by blast
qed

lemma gods_phase_citizens: "citizens (fst (gods_phase ops st)) = citizens st"
  by (simp add: gods_phase_def split_beta)

lemma persist_phase_citizens:
  "citizens (persist_phase st) = snd (save_citizens (e_db st) (citizens st))"
  by (simp add: persist_phase_def split_beta save_world_state_of_def)

text \<open>What a tick does to the list of citizens.\<close>

lemma tick_citizens:
  "\<exists>cs. (cs = citizens st \<or>
         (\<exists>e traits g. cs = fst (apply_event_loop ops e traits (factions st) (citizens st) g))) \<and>
        (citizens (fst (tick ops st)) = cs \<or>
         (\<exists>db. citizens (fst (tick ops st)) = snd (save_citizens db cs)))"
proof -
  obtain tr ev myths st4 where ep: "event_phase ops st = (tr, ev, myths, st4)"
    by (cases "event_phase ops st") auto
  obtain st5 out where gp: "gods_phase ops st4 = (st5, out)"
    by (cases "gods_phase ops st4")
  from gods_phase_citizens [of ops st4] gp have c5: "citizens st5 = citizens st4" by simp
  have "citizens (fst (tick ops st)) = citizens st4 \<or>
        (\<exists>db. citizens (fst (tick ops st)) = snd (save_citizens db (citizens st4)))"
  proof (cases out)
    case (Inl e)
    with ep gp c5 show ?thesis by (simp add: tick_phases)
  next
    case (Inr bf)
    with ep gp c5 persist_phase_citizens [of st5] show ?thesis
      by (auto simp: tick_phases split_beta)
  qed
  with event_phase_citizens [OF ep] show ?thesis by blast
qed

lemma saved_as_clamped: "saved_as c c' \<Longrightarrow> citizen_clamped c \<Longrightarrow> citizen_clamped c'"
  by (auto simp: saved_as_def citizen_clamped_def)

lemma list_all2_carry:
  assumes "list_all2 R xs ys" and "\<And>x y. R x y \<Longrightarrow> P x \<Longrightarrow> P y" and "list_all P xs"
  shows "list_all P ys"
  using assms(1,3) by (induction rule: list_all2_induct) (auto intro: assms(2))

lemma save_citizens_clamped:
  "list_all citizen_clamped cs \<Longrightarrow> list_all citizen_clamped (snd (save_citizens db cs))"
  by (rule list_all2_carry [OF save_citizens_rows]) (rule saved_as_clamped)

lemma tick_clamped:
  assumes "list_all citizen_clamped (citizens st)"
  shows "list_all citizen_clamped (citizens (fst (tick ops st)))"
proof -
  from tick_citizens [of st ops] obtain cs where
    cs: "cs = citizens st \<or>
         (\<exists>e traits g. cs = fst (apply_event_loop ops e traits (factions st) (citizens st) g))"
    and t: "citizens (fst (tick ops st)) = cs \<or>
         (\<exists>db. citizens (fst (tick ops st)) = snd (save_citizens db cs))"
    by blast
  from cs assms have "list_all citizen_clamped cs"
    by (auto intro: apply_event_loop_clamped)
  with t show ?thesis by (auto intro: save_citizens_clamped)
qed

lemma ticks_clamped:
  "list_all citizen_clamped (citizens st) \<Longrightarrow> list_all citizen_clamped (citizens (ticks ops n st))"
  by (induction n arbitrary: st) (simp_all add: tick_clamped)

lemma uniform_dict_in_unit:
  assumes "uniform_in_range ops" and "0 \<le> a" and "a \<le> b" and "b \<le> 1"
  shows "(\<forall>d v. m d = Some v \<longrightarrow> in_unit v) \<Longrightarrow>
         (\<forall>d v. fst (uniform_dict ops a b ds m g) d = Some v \<longrightarrow> in_unit v)"
proof (induction ds arbitrary: m g)
  case Nil
  then show ?case by simp
next
  case (Cons x ds)
  obtain v g1 where u: "rng_uniform ops a b g = (v, g1)" by (cases "rng_uniform ops a b g")
  from assms(1,3) have "a \<le> fst (rng_uniform ops a b g) \<and> fst (rng_uniform ops a b g) \<le> b"
    unfolding uniform_in_range_def by blast
  with u assms(2,4) have "in_unit v" by (simp add: in_unit_def)
  with Cons.prems have m': "\<forall>d w. (m(x \<mapsto> v)) d = Some w \<longrightarrow> in_unit w" by simp
  have step: "uniform_dict ops a b (x # ds) m g = uniform_dict ops a b ds (m(x \<mapsto> v)) g1"
    by (simp add: u)
  show ?case unfolding step by (rule Cons.IH [OF m'])
qed

lemma uniform_in_unit:
  assumes "uniform_in_range ops" and "0 \<le> a" and "a \<le> b" and "b \<le> 1"
  shows "in_unit (fst (rng_uniform ops a b g))"
proof -
  from assms(1,3) have "a \<le> fst (rng_uniform ops a b g) \<and> fst (rng_uniform ops a b g) \<le> b"
    unfolding uniform_in_range_def by blast
  with assms(2,4) show ?thesis by (simp add: in_unit_def)
qed

lemma citizen_generate_props:
  "citizen_alive (fst (citizen_generate ops fid g)) \<and>
   faction_id (fst (citizen_generate ops fid g)) = fid \<and>
   (uniform_in_range ops \<longrightarrow> citizen_clamped (fst (citizen_generate ops fid g)))"
proof -
  have "uniform_in_range ops \<Longrightarrow> citizen_clamped (fst (citizen_generate ops fid g))"
    using uniform_dict_in_unit [of ops 0 "3/10" Map.empty DOMAINS g]
      uniform_in_unit [of ops "1/10" "4/10"]
    by (simp add: citizen_generate_def citizen_clamped_def split_beta)
  then show ?thesis by (simp add: citizen_generate_def split_beta)
qed

lemma update_belief_key: "citizen_key (update_belief c d delta b) = citizen_key c"
  by (simp add: update_belief_def citizen_key_def Let_def)

lemma update_emotion_key: "citizen_key (update_emotion c fd gd) = citizen_key c"
  by (simp add: update_emotion_def citizen_key_def Let_def)

lemma apply_event_citizen_key:
  "citizen_key (fst (apply_event_citizen ops ev traits fs c g)) = citizen_key c"
  by (cases "secondary_domain ev")
     (simp_all add: apply_event_citizen_def Let_def split_beta update_belief_key update_emotion_key)

lemma apply_event_loop_keys:
  "map citizen_key (fst (apply_event_loop ops ev traits fs cs g)) = map citizen_key cs"
  by (induction cs arbitrary: g) (simp_all add: split_beta apply_event_citizen_key)

lemma saved_as_same: "saved_as c c' \<Longrightarrow> has_rowid c \<Longrightarrow> c' = c"
  unfolding saved_as_def has_rowid_def by blast

lemma save_citizens_same:
  assumes "list_all has_rowid cs"
  shows "snd (save_citizens db cs) = cs"
proof -
  have "list_all2 saved_as cs ys \<Longrightarrow> list_all has_rowid cs \<Longrightarrow> ys = cs" for ys
    by (induction rule: list_all2_induct) (simp_all add: saved_as_same)
  from this [OF save_citizens_rows assms] show ?thesis .
qed

lemma has_rowid_key: "list_all has_rowid cs \<longleftrightarrow> list_all (\<lambda>k. fst k \<noteq> None) (map citizen_key cs)"
  by (simp add: list_all_iff has_rowid_def citizen_key_def)

lemma tick_citizen_keys:
  assumes "list_all has_rowid (citizens st)"
  shows "map citizen_key (citizens (fst (tick ops st))) = map citizen_key (citizens st)"
proof -
  from tick_citizens [of st ops] obtain cs where
    cs: "cs = citizens st \<or>
         (\<exists>e traits g. cs = fst (apply_event_loop ops e traits (factions st) (citizens st) g))"
    and t: "citizens (fst (tick ops st)) = cs \<or>
         (\<exists>db. citizens (fst (tick ops st)) = snd (save_citizens db cs))"
    by blast
  from cs have k: "map citizen_key cs = map citizen_key (citizens st)"
    by (auto simp: apply_event_loop_keys)
  with assms have "list_all has_rowid cs" by (simp add: has_rowid_key)
  with t have "citizens (fst (tick ops st)) = cs" by (auto simp: save_citizens_same)
  with k show ?thesis by simp
qed

lemma ticks_citizen_keys:
  "list_all has_rowid (citizens st) \<Longrightarrow>
   map citizen_key (citizens (ticks ops n st)) = map citizen_key (citizens st)"
proof (induction n arbitrary: st)
  case 0
  then show ?case by simp
next
  case (Suc n)
  from tick_citizen_keys [OF Suc.prems, of ops]
  have k: "map citizen_key (citizens (fst (tick ops st))) = map citizen_key (citizens st)" .
  with Suc.prems have "list_all has_rowid (citizens (fst (tick ops st)))"
    by (simp add: has_rowid_key)
  from Suc.IH [OF this] k show ?case by simp
qed

lemma create_citizens_new:
  "\<exists>new. fst (snd (create_citizens ops n fid (db, cs, g))) = cs @ new \<and> length new = n \<and>
         list_all (\<lambda>c. founded ops c \<and> faction_id c = fid) new"
proof (induction n arbitrary: db cs g)
  case 0
  then show ?case by simp
next
  case (Suc n)
  obtain c g1 where cg: "citizen_generate ops fid g = (c, g1)" by (cases "citizen_generate ops fid g")
  obtain db1 c1 where sc: "save_citizen db c = (db1, c1)" by (cases "save_citizen db c")
  from citizen_generate_props [of ops fid g] cg
  have c: "citizen_alive c" "faction_id c = fid" "uniform_in_range ops \<longrightarrow> citizen_clamped c"
    by simp_all
  have "citizen_id c = None" using cg by (auto simp: citizen_generate_def split_beta)
  with sc have c1: "c1 = c\<lparr> citizen_id := Some (lastrowid (map citizen_id (citizens_table db))) \<rparr>"
    by (auto simp: save_citizen_def Let_def)
  from c have f1: "founded ops c1 \<and> faction_id c1 = fid"
    unfolding c1 by (simp add: founded_def has_rowid_def citizen_clamped_def)
  from Suc.IH [of db1 "cs @ [c1]" g1] obtain new where
    new: "fst (snd (create_citizens ops n fid (db1, cs @ [c1], g1))) = (cs @ [c1]) @ new"
      "length new = n" "list_all (\<lambda>c. founded ops c \<and> faction_id c = fid) new"
    by blast
  have "fst (snd (create_citizens ops (Suc n) fid (db, cs, g))) = cs @ (c1 # new)"
    using new(1) cg sc by simp
  moreover have "length (c1 # new) = Suc n" using new(2) by simp
  moreover have "list_all (\<lambda>c. founded ops c \<and> faction_id c = fid) (c1 # new)"
    using new(3) f1 by simp
  ultimately show ?case by blast
qed

lemma create_factions_new:
  "create_factions ops n (db, fs, cs, g) = Inr (db', fs', cs', g') \<Longrightarrow>
   \<exists>newf groups. fs' = fs @ newf \<and> cs' = cs @ concat groups \<and> length newf = n \<and>
                 list_all2 (members_of ops) newf groups"
proof (induction n arbitrary: db fs cs g)
  case 0
  then have "fs' = fs @ [] \<and> cs' = cs @ concat [] \<and> length ([]::faction_row list) = 0 \<and>
             list_all2 (members_of ops) [] []" by simp
  then show ?case by blast
next
  case (Suc n)
  obtain f g1 where fg: "faction_generate ops g = (f, g1)" by (cases "faction_generate ops g")
  from Suc.prems fg obtain db1 f1 where sf: "save_faction db f = Inr (db1, f1)"
    by (cases "save_faction db f") auto
  have "faction_row_id f = None" using fg by (auto simp: faction_generate_def split_beta)
  with sf have fid: "faction_row_id f1 \<noteq> None"
    by (auto simp: save_faction_def Let_def split: if_splits)
  let ?cc = "create_citizens ops INITIAL_CITIZENS_PER_FACTION (faction_row_id f1) (db1, cs, g1)"
  obtain db2 cs2 g2 where cc: "?cc = (db2, cs2, g2)" by (cases ?cc) auto
  from create_citizens_new [of ops INITIAL_CITIZENS_PER_FACTION "faction_row_id f1" db1 cs g1] cc
  obtain new1 where new1: "cs2 = cs @ new1" "length new1 = INITIAL_CITIZENS_PER_FACTION"
    "list_all (\<lambda>c. founded ops c \<and> faction_id c = faction_row_id f1) new1"
    by auto
  from new1 fid have m1: "members_of ops f1 new1" by (simp add: members_of_def)
  from Suc.prems fg sf cc have "create_factions ops n (db2, fs @ [f1], cs2, g2) = Inr (db', fs', cs', g')"
    by simp
  from Suc.IH [OF this] obtain newf groups where r: "fs' = (fs @ [f1]) @ newf"
    "cs' = cs2 @ concat groups" "length newf = n" "list_all2 (members_of ops) newf groups"
    by blast
  have "fs' = fs @ (f1 # newf)" using r(1) by simp
  moreover have "cs' = cs @ concat (new1 # groups)" using r(2) new1(1) by simp
  moreover have "length (f1 # newf) = Suc n" using r(3) by simp
  moreover have "list_all2 (members_of ops) (f1 # newf) (new1 # groups)" using r(4) m1 by simp
  ultimately show ?case by blast
qed

lemma fresh_world:
  assumes "initialize ops db seed nar True = Inr st"
  shows "\<exists>groups loners. citizens st = concat groups @ loners \<and>
           list_all2 (members_of ops) (factions st) groups \<and>
           length (factions st) = INITIAL_FACTIONS \<and> length loners = UNAFFILIATED_CITIZENS \<and>
           list_all (\<lambda>c. founded ops c \<and> faction_id c = None) loners"
proof -
  let ?db1 = "clear_all db"
  have "get_world_state ?db1 = None" by (simp add: get_world_state_def clear_all_def)
  with assms have cw: "create_new_world ops ?db1 seed nar (rng_new ops seed) = Inr st"
    by (simp add: initialize_def Let_def)
  obtain am g1 where am: "am_new ops (rng_new ops seed) = (am, g1)"
    by (cases "am_new ops (rng_new ops seed)")
  from cw am obtain db1 fs cs g2 where
    cf: "create_factions ops INITIAL_FACTIONS (?db1, [], [], g1) = Inr (db1, fs, cs, g2)"
    by (cases "create_factions ops INITIAL_FACTIONS (?db1, [], [], g1)")
       (auto simp: create_new_world_def Let_def)
  let ?cc = "create_citizens ops UNAFFILIATED_CITIZENS None (db1, cs, g2)"
  obtain db2 cs2 g3 where cc: "?cc = (db2, cs2, g3)" by (cases ?cc) auto
  from cw am cf cc have st: "citizens st = cs2" "factions st = fs"
    by (auto simp: create_new_world_def Let_def save_world_state_of_def)
  from create_factions_new [OF cf] obtain groups where
    m: "cs = concat groups" "length fs = INITIAL_FACTIONS" "list_all2 (members_of ops) fs groups"
    by auto
  from create_citizens_new [of ops UNAFFILIATED_CITIZENS None db1 cs g2] cc
  obtain new where new: "cs2 = cs @ new" "length new = UNAFFILIATED_CITIZENS"
    "list_all (\<lambda>c. founded ops c \<and> faction_id c = None) new"
    by auto
  from st m new show ?thesis by blast
qed

lemma members_concat:
  "list_all2 (members_of ops) fs groups \<Longrightarrow>
   length (concat groups) = INITIAL_CITIZENS_PER_FACTION * length fs \<and>
   list_all (founded ops) (concat groups)"
  by (induction rule: list_all2_induct) (auto simp: members_of_def list_all_iff)

lemma fresh_world_founded:
  assumes "initialize ops db seed nar True = Inr st"
  shows "length (citizens st) = 29 \<and> list_all (founded ops) (citizens st)"
proof -
  from fresh_world [OF assms] obtain groups loners where
    w: "citizens st = concat groups @ loners" "list_all2 (members_of ops) (factions st) groups"
       "length (factions st) = INITIAL_FACTIONS" "length loners = UNAFFILIATED_CITIZENS"
       "list_all (\<lambda>c. founded ops c \<and> faction_id c = None) loners"
    by blast
  from w(5) have "list_all (founded ops) loners" by (simp add: list_all_iff)
  with members_concat [OF w(2)] w(1,3,4) show ?thesis
    by (simp add: INITIAL_FACTIONS_def INITIAL_CITIZENS_PER_FACTION_def UNAFFILIATED_CITIZENS_def)
qed

text \<open>
  C10. Citizens are immortal in practice.  A fresh genesis that returns leaves three
  factions and a list of 29 citizens: for each faction in turn its eight members, which
  carry the faction's rowid, then five citizens without faction; all are alive.  After any
  number of calls of \<^verbatim>\<open>tick\<close>, whether they returned or raised, the list holds the same
  citizens in the same order (same rowid, name, faction and life flag), so it still has 29
  entries, all alive, and the living population is the whole list.
\<close>

theorem citizens_immortal:
  assumes "initialize ops db seed nar True = Inr st"
  shows "(\<exists>groups loners.
            citizens st = concat groups @ loners \<and>
            length (factions st) = 3 \<and>
            list_all2 (\<lambda>f grp. length grp = 8 \<and> list_all (\<lambda>c. faction_id c = faction_row_id f) grp)
              (factions st) groups \<and>
            length loners = 5 \<and> list_all (\<lambda>c. faction_id c = None) loners) \<and>
         length (citizens st) = 29 \<and> list_all citizen_alive (citizens st) \<and>
         map citizen_key (citizens (ticks ops n st)) = map citizen_key (citizens st) \<and>
         length (citizens (ticks ops n st)) = 29 \<and>
         list_all citizen_alive (citizens (ticks ops n st)) \<and>
         filter citizen_alive (citizens (ticks ops n st)) = citizens (ticks ops n st)"
proof -
  from fresh_world [OF assms] obtain groups loners where
    w: "citizens st = concat groups @ loners" "list_all2 (members_of ops) (factions st) groups"
       "length (factions st) = INITIAL_FACTIONS" "length loners = UNAFFILIATED_CITIZENS"
       "list_all (\<lambda>c. founded ops c \<and> faction_id c = None) loners"
    by blast
  have g: "list_all2 (\<lambda>f grp. length grp = 8 \<and> list_all (\<lambda>c. faction_id c = faction_row_id f) grp)
              (factions st) groups"
    by (rule list_all2_mono [OF w(2)])
       (simp add: members_of_def INITIAL_CITIZENS_PER_FACTION_def list_all_iff)
  from w(5) have l: "list_all (\<lambda>c. faction_id c = None) loners" by (simp add: list_all_iff)
  have first: "\<exists>groups loners.
            citizens st = concat groups @ loners \<and>
            length (factions st) = 3 \<and>
            list_all2 (\<lambda>f grp. length grp = 8 \<and> list_all (\<lambda>c. faction_id c = faction_row_id f) grp)
              (factions st) groups \<and>
            length loners = 5 \<and> list_all (\<lambda>c. faction_id c = None) loners"
    using w(1,3,4) g l by (auto simp: INITIAL_FACTIONS_def UNAFFILIATED_CITIZENS_def)
  from fresh_world_founded [OF assms]
  have len: "length (citizens st) = 29" and f: "list_all (founded ops) (citizens st)" by simp_all
  from f have alive: "list_all citizen_alive (citizens st)"
    and ids: "list_all has_rowid (citizens st)"
    by (simp_all add: list_all_iff founded_def)
  note k = ticks_citizen_keys [OF ids, of ops n]
  from k have len_n: "length (citizens (ticks ops n st)) = length (citizens st)"
    by (rule map_eq_imp_length_eq)
  have alive_n: "list_all citizen_alive (citizens (ticks ops n st))"
  proof -
    have "map (\<lambda>c. snd (snd (snd (citizen_key c)))) (citizens (ticks ops n st)) =
          map (\<lambda>c. snd (snd (snd (citizen_key c)))) (citizens st)"
      using arg_cong [OF k, of "map (\<lambda>k. snd (snd (snd k)))"] by (simp add: comp_def)
    then have "map citizen_alive (citizens (ticks ops n st)) = map citizen_alive (citizens st)"
      by (simp add: citizen_key_def)
    then have "set (map citizen_alive (citizens (ticks ops n st))) = set (map citizen_alive (citizens st))"
      by simp
    with alive show ?thesis by (auto simp: list_all_iff)
  qed
  then have "filter citizen_alive (citizens (ticks ops n st)) = citizens (ticks ops n st)"
    by (simp add: list_all_iff)
  with first len alive k len_n alive_n show ?thesis by simp
qed

theorem citizens_immortal_witness:
  "\<exists>st. initialize count_rng empty_db 42 None True = Inr st \<and>
        length (citizens (ticks count_rng 10 st)) = 29 \<and>
        list_all citizen_alive (citizens (ticks count_rng 10 st)) \<and>
        map citizen_key (citizens (ticks count_rng 10 st)) = map citizen_key (citizens st)"
proof -
  from is_ok_Inr [OF count_rng_genesis] obtain st
    where st: "initialize count_rng empty_db 42 None True = Inr st" ..
  from citizens_immortal [OF st, of 10] st show ?thesis by blast
qed

section \<open>Beliefs and emotions\<close>

lemma count_rng_uniform: "uniform_in_range count_rng"
  by (simp add: uniform_in_range_def count_rng_def)

lemma update_belief_value:
  "belief_vector (update_belief c d delta bias) d =
     Some (max 0 (min 1 (dict_get (belief_vector c) d 0 + delta * bias)))"
  by (simp add: update_belief_def Let_def)

text \<open>
  C3. Belief and emotion clamp.  Whatever the citizen, the domain, the delta and the
  faction bias, \<^verbatim>\<open>update_belief\<close> leaves the belief value of that domain in \<open>[0, 1]\<close>, and
  leaves a citizen whose values all were in \<open>[0, 1]\<close> such a citizen; \<^verbatim>\<open>update_emotion\<close>
  leaves fear and gratitude in \<open>[0, 1]\<close> whatever the deltas.  Hence, after a fresh genesis
  and any number of calls of \<^verbatim>\<open>tick\<close>, every belief value of every citizen and the fear
  and gratitude of every citizen lie in \<open>[0, 1]\<close> (genesis draws them with \<^verbatim>\<open>uniform\<close>,
  whose contract is used), and the ticks of any engine whose citizens are in range keep
  them in range.  (Floats are read as reals.)
\<close>

theorem belief_emotion_clamped:
  "in_unit (dict_get (belief_vector (update_belief c d delta bias)) d 0) \<and>
   (citizen_clamped c \<longrightarrow> citizen_clamped (update_belief c d delta bias)) \<and>
   in_unit (fear (update_emotion c fd gd)) \<and> in_unit (gratitude (update_emotion c fd gd)) \<and>
   (uniform_in_range ops \<longrightarrow> initialize ops db seed nar True = Inr st \<longrightarrow>
      list_all citizen_clamped (citizens (ticks ops n st))) \<and>
   (list_all citizen_clamped (citizens st') \<longrightarrow>
      list_all citizen_clamped (citizens (ticks ops n st')))"
proof -
  have a: "in_unit (dict_get (belief_vector (update_belief c d delta bias)) d 0)"
    by (simp add: update_belief_value dict_get_def clamp_in_unit)
  have b: "in_unit (fear (update_emotion c fd gd)) \<and> in_unit (gratitude (update_emotion c fd gd))"
    by (simp add: update_emotion_def Let_def clamp_in_unit)
  have g: "uniform_in_range ops \<Longrightarrow> initialize ops db seed nar True = Inr st \<Longrightarrow>
      list_all citizen_clamped (citizens (ticks ops n st))"
  proof -
    assume u: "uniform_in_range ops" and i: "initialize ops db seed nar True = Inr st"
    from fresh_world_founded [OF i] u have "list_all citizen_clamped (citizens st)"
      by (simp add: list_all_iff founded_def)
    then show ?thesis by (rule ticks_clamped)
  qed
  from a b g show ?thesis by (auto intro: update_belief_clamped ticks_clamped)
qed

theorem belief_emotion_clamped_witness:
  "\<exists>st. uniform_in_range count_rng \<and> initialize count_rng empty_db 42 None True = Inr st \<and>
        citizen_clamped (believer 1) \<and> list_all citizen_clamped (citizens st) \<and>
        in_unit (dict_get (belief_vector (update_belief (believer 1) ''river'' 7 3)) ''river'' 0) \<and>
        citizen_clamped (update_belief (believer 1) ''river'' 7 3) \<and>
        in_unit (fear (update_emotion (believer 1) (-5) 9)) \<and>
        in_unit (gratitude (update_emotion (believer 1) (-5) 9)) \<and>
        list_all citizen_clamped (citizens (ticks count_rng 4 st))"
proof -
  from is_ok_Inr [OF count_rng_genesis] obtain st
    where st: "initialize count_rng empty_db 42 None True = Inr st" ..
  have c: "citizen_clamped (believer 1)"
    by (simp add: believer_def citizen_clamped_def in_unit_def)
  note t = belief_emotion_clamped [of "believer 1" "''river''" 7 3 "-5" 9 count_rng empty_db 42 None st _ st]
  from t [of 0] count_rng_uniform st have s0: "list_all citizen_clamped (citizens st)" by simp
  from t [of 4] count_rng_uniform st c s0 show ?thesis by blast
qed

lemma resolve_unaffiliated: "faction_id c = None \<Longrightarrow> resolve_faction_bias fs ev c = 1"
  by (simp add: resolve_faction_bias_def)

lemma update_emotion_beliefs: "belief_vector (update_emotion c fd gd) = belief_vector c"
  by (simp add: update_emotion_def Let_def)

lemma update_belief_other:
  "d' \<noteq> d \<Longrightarrow> belief_vector (update_belief c d delta bias) d' = belief_vector c d'"
  by (simp add: update_belief_def Let_def)

text \<open>
  C4, as the code has it.  For a citizen without faction, \<^verbatim>\<open>_apply_event\<close> keeps the
  faction bias at its initial value 1.0 (the default 0.5 is the one of \<^verbatim>\<open>Faction.get_bias\<close>,
  reached only through a faction whose doctrine lacks the domain).  So the belief of such
  a citizen in the primary domain becomes its old value plus \<open>belief_delta * 1\<close>, clamped,
  with \<open>belief_delta = belief_impact * belief_growth * (0.8 + random() * 0.4)\<close> (the
  secondary domain being another domain, as it is in every generated event).
\<close>

theorem unaffiliated_bias_is_one:
  assumes "faction_id c = None" and "secondary_domain ev \<noteq> Some (primary_domain ev)"
  shows "resolve_faction_bias fs ev c = 1 \<and>
         belief_vector (fst (apply_event_citizen ops ev traits fs c g)) (primary_domain ev) =
           Some (max 0 (min 1 (dict_get (belief_vector c) (primary_domain ev) 0 +
                   (belief_impact ev * belief_growth traits * (8/10 + fst (rng_random ops g) * (4/10))) * 1)))"
proof (cases "secondary_domain ev")
  case None
  then show ?thesis
    using resolve_unaffiliated [OF assms(1), of fs ev]
    by (simp add: apply_event_citizen_def Let_def split_beta update_emotion_beliefs
        update_belief_value)
next
  case (Some d)
  with assms(2) have "primary_domain ev \<noteq> d" by auto
  with Some show ?thesis
    using resolve_unaffiliated [OF assms(1), of fs ev]
    by (simp add: apply_event_citizen_def Let_def split_beta update_emotion_beliefs
        update_belief_value update_belief_other)
qed

theorem unaffiliated_bias_is_one_witness:
  "faction_id (believer (1/10)) = None \<and>
   secondary_domain still_waters \<noteq> Some (primary_domain still_waters) \<and>
   resolve_faction_bias [] still_waters (believer (1/10)) = 1 \<and>
   belief_vector (fst (apply_event_citizen count_rng still_waters (AGE_TRAITS ORDER) []
                         (believer (1/10)) 0)) ''river'' = Some (5/10)"
proof -
  have a: "faction_id (believer (1/10)) = None" by (simp add: believer_def)
  have b: "secondary_domain still_waters \<noteq> Some (primary_domain still_waters)"
    by (simp add: still_waters_def)
  from unaffiliated_bias_is_one [OF a b, of "[]" count_rng "AGE_TRAITS ORDER" 0] a b
  show ?thesis
    by (simp add: still_waters_def believer_def count_rng_def dict_get_def)
qed

text \<open>
  C4, as the claim states it, fails: for the unaffiliated citizen \<open>believer (1/10)\<close> and the
  omen \<open>still_waters\<close> the resolved bias is not 0.5, and the new belief is not the old one
  plus \<open>belief_delta * 0.5\<close>.
\<close>

theorem unaffiliated_bias_counterexample:
  "faction_id (believer (1/10)) = None \<and>
   resolve_faction_bias [] still_waters (believer (1/10)) \<noteq> 5/10 \<and>
   belief_vector (fst (apply_event_citizen count_rng still_waters (AGE_TRAITS ORDER) []
                         (believer (1/10)) 0)) ''river'' \<noteq>
     Some (max 0 (min 1 (1/10 + (belief_impact still_waters * belief_growth (AGE_TRAITS ORDER) *
                                  (8/10 + fst (rng_random count_rng 0) * (4/10))) * (5/10))))"
  by (simp add: resolve_faction_bias_def apply_event_citizen_def Let_def split_beta
      update_emotion_def update_belief_def still_waters_def believer_def count_rng_def dict_get_def)

section \<open>The narrator\<close>

lemma wn_fields [simp]:
  "e_db (with_narrator x st) = e_db st"
  "e_seed (with_narrator x st) = e_seed st"
  "e_rng (with_narrator x st) = e_rng st"
  "narrator (with_narrator x st) = x"
  "age_mgr (with_narrator x st) = age_mgr st"
  "current_day (with_narrator x st) = current_day st"
  "factions (with_narrator x st) = factions st"
  "citizens (with_narrator x st) = citizens st"
  "e_proto_god_days (with_narrator x st) = e_proto_god_days st"
  by (simp_all add: with_narrator_def)


lemma wn_wn [simp]: "with_narrator x (with_narrator y st) = with_narrator x st"
  by (simp add: with_narrator_def)










section \<open>Determinism\<close>















section \<open>Birth and fade\<close>

lemma has_aggregation_iff:
  assumes "map fst A = DOMAINS"
  shows "has_aggregation A r \<longleftrightarrow> god_domain r \<in> set DOMAINS"
proof -
  have "map_of A (god_domain r) \<noteq> None \<longleftrightarrow> god_domain r \<in> set (map fst A)"
    by (simp add: map_of_eq_None_iff)
  then show ?thesis by (simp add: has_aggregation_def assms)
qed

lemma wellformed_find:
  "map fst A = DOMAINS \<Longrightarrow> gods_wellformed t \<Longrightarrow>
   find (\<lambda>g. \<not> has_aggregation A g) (filter god_alive t) = None"
  by (simp add: find_None_iff has_aggregation_iff gods_wellformed_def)

lemma check_fade_weak:
  "0 \<le> consecutive_weak_days r \<Longrightarrow> 0 \<le> consecutive_weak_days (fst (check_fade agg day r))"
  by (simp add: check_fade_def Let_def update_strength_def fade_def)

lemma faded_row_weak:
  "0 \<le> consecutive_weak_days r \<Longrightarrow> 0 \<le> consecutive_weak_days (faded_row aggs day r)"
  by (simp add: faded_row_def check_fade_weak split: option.splits)

lemma proto_after_nonneg: "\<forall>d. 0 \<le> proto d \<Longrightarrow> 0 \<le> proto_after living aggs proto d"
  by (simp add: proto_after_def split: option.splits)

lemma newborn_list:
  "list_all2 (\<lambda>e b. newborn day (fst e) b) es born \<Longrightarrow> b \<in> set born \<Longrightarrow>
   god_domain b \<in> fst ` set es \<and> consecutive_weak_days b = 0 \<and> god_alive b \<and> birth_day b = day"
  by (induction es born rule: list_all2_induct) (auto simp: newborn_def)

lemma newborn_exists:
  "list_all2 (\<lambda>e b. newborn day (fst e) b) es born \<Longrightarrow> e \<in> set es \<Longrightarrow>
   \<exists>b \<in> set born. newborn day (fst e) b"
  by (induction es born rule: list_all2_induct) auto

text \<open>A call of \<^verbatim>\<open>process_gods\<close> on a well-formed god system returns, and this is what it
  leaves.\<close>

lemma process_aggregations_ok:
  assumes "god_system_ok gs" and keys: "map fst A = DOMAINS"
  shows "\<exists>gs' born.
    process_aggregations ops A day gs =
      (gs', Inr (born, map (faded_row A day)
                         (filter (fades A day)
                            (filter god_alive (gods_table (gs_db gs)))))) \<and>
    gods_table (gs_db gs') =
      map (\<lambda>r. if god_alive r then faded_row A day r else r)
        (gods_table (gs_db gs)) @ born \<and>
    list_all2 (\<lambda>e b. newborn day (fst e) b)
      (filter (birth_due
                 (living_domains_of
                    (map (\<lambda>r. if god_alive r then faded_row A day r else r)
                       (gods_table (gs_db gs))))
                 (proto_god_days gs)) A) born \<and>
    proto_god_days gs' =
      proto_after
        (living_domains_of
           (map (\<lambda>r. if god_alive r then faded_row A day r else r)
              (gods_table (gs_db gs))))
        A (proto_god_days gs) \<and>
    god_system_ok gs'"
proof -
  let ?A = "A"
  let ?T = "gods_table (gs_db gs)"
  let ?T1 = "map (\<lambda>r. if god_alive r then faded_row ?A day r else r) ?T"
  let ?gs1 = "gs\<lparr> gs_db := (gs_db gs)\<lparr> gods_table := ?T1 \<rparr> \<rparr>"
  let ?cb = "check_births ops (living_domains_of ?T1) day ?A ?gs1"
  from assms(1) have wf: "gods_wellformed ?T" and pn: "\<forall>d. 0 \<le> proto_god_days gs d"
    by (simp_all add: god_system_ok_def)
  from wf have k: "gods_keyed ?T" by (simp add: gods_wellformed_def)
  note fnd = wellformed_find [OF keys wf]
  have fp: "fade_pass ?A day ?T = ?T1" by (rule fade_pass_all [OF fnd])
  have pg: "process_aggregations ops A day gs =
        (fst ?cb, Inr (snd ?cb, map (faded_row ?A day) (filter (fades ?A day) (filter god_alive ?T))))"
    by (simp add: process_aggregations_unfold [OF k] Let_def fnd fp)
  have dk: "distinct (map fst ?A)"
    by (simp add: keys DOMAINS_distinct)
  have k1: "gods_keyed ?T1" using fade_pass_keyed [OF k, of ?A day] fp by simp
  note eff = check_births_effect [OF dk, of ops "living_domains_of ?T1" day ?gs1]
  from eff have tb: "gods_table (gs_db (fst ?cb)) = ?T1 @ snd ?cb" by simp
  from eff have la: "list_all2 (\<lambda>e b. newborn day (fst e) b)
      (filter (birth_due (living_domains_of ?T1) (proto_god_days gs)) ?A) (snd ?cb)" by simp
  from eff have pa: "proto_god_days (fst ?cb) =
      proto_after (living_domains_of ?T1) ?A (proto_god_days gs)" by simp
  from eff k1 have k2: "gods_keyed (?T1 @ snd ?cb)" by simp
  have w1: "\<forall>r \<in> set ?T1. god_domain r \<in> set DOMAINS \<and> 0 \<le> consecutive_weak_days r"
    using wf by (auto simp: gods_wellformed_def faded_row_weak)
  have w2: "\<forall>b \<in> set (snd ?cb). god_domain b \<in> set DOMAINS \<and> 0 \<le> consecutive_weak_days b"
  proof
    fix b assume "b \<in> set (snd ?cb)"
    from newborn_list [OF la this] have "god_domain b \<in> fst ` set ?A" "consecutive_weak_days b = 0"
      by auto
    moreover have "fst ` set ?A = set DOMAINS"
      using keys by (metis set_map)
    ultimately show "god_domain b \<in> set DOMAINS \<and> 0 \<le> consecutive_weak_days b" by simp
  qed
  have ok: "god_system_ok (fst ?cb)"
    unfolding god_system_ok_def gods_wellformed_def tb pa
    using k2 w1 w2 proto_after_nonneg [OF pn] by auto
  from pg tb la pa ok show ?thesis by blast
qed

lemma living_after_fade:
  "living_domains_of (map (\<lambda>r. if god_alive r then faded_row aggs day r else r) t)
     \<subseteq> living_domains_of t"
proof -
  have "living_domains_of (map (\<lambda>r. if god_alive r then faded_row aggs day r else r) t)
          \<subseteq> living_domains_of t \<and>
        (one_god_per_domain t \<longrightarrow>
           one_god_per_domain (map (\<lambda>r. if god_alive r then faded_row aggs day r else r) t))"
    by (rule exclusive_map) (auto dest: faded_row_alive split: if_splits)
  then show ?thesis by blast
qed

lemma living_append:
  "living_domains_of (t @ born) = living_domains_of t \<union> living_domains_of born"
  by (auto simp: living_domains_of_def)

lemma rng_ok: "god_system_ok (gs\<lparr> gs_rng := g \<rparr>) = god_system_ok gs"
  by (simp add: god_system_ok_def)

lemma ascending_step:
  assumes ok: "god_system_ok gs" and asc: "ascending d gs A"
  shows "\<exists>gs' born faded.
     process_aggregations ops A day gs = (gs', Inr (born, faded)) \<and> god_system_ok gs' \<and>
     (if proto_god_days gs d + 1 \<ge> 5
      then (\<exists>b \<in> set born. god_domain b = d \<and> god_alive b \<and> birth_day b = day \<and>
                            b \<in> set (gods_table (gs_db gs'))) \<and>
           proto_god_days gs' d = 0 \<and> d \<in> living_domains_of (gods_table (gs_db gs'))
      else proto_god_days gs' d = proto_god_days gs d + 1 \<and>
           d \<notin> living_domains_of (gods_table (gs_db gs')))"
proof -
  let ?A = "A"
  let ?T = "gods_table (gs_db gs)"
  let ?T1 = "map (\<lambda>r. if god_alive r then faded_row ?A day r else r) ?T"
  let ?L = "living_domains_of ?T1"
  let ?P = "proto_god_days gs"
  from asc have keys: "map fst A = DOMAINS" by (simp add: ascending_def)
  from process_aggregations_ok [OF ok keys, of ops day] obtain gs' born where
    pg: "process_aggregations ops A day gs =
      (gs', Inr (born, map (faded_row ?A day) (filter (fades ?A day) (filter god_alive ?T))))"
    and tb: "gods_table (gs_db gs') = ?T1 @ born"
    and la: "list_all2 (\<lambda>e b. newborn day (fst e) b) (filter (birth_due ?L ?P) ?A) born"
    and pa: "proto_god_days gs' = proto_after ?L ?A ?P"
    and ok': "god_system_ok gs'"
    by blast
  from asc have nl: "d \<notin> living_domains_of ?T" by (simp add: ascending_def)
  with living_after_fade [of ?A day ?T] have dL: "d \<notin> ?L" by auto
  from asc obtain agg where agg: "map_of ?A d = Some agg"
    and crit: "birth_criteria agg"
    by (auto simp: ascending_def birth_criteria_def BELIEF_THRESHOLD_def COHERENCE_THRESHOLD_def
        split: option.splits)
  have dk: "distinct (map fst ?A)"
    by (simp add: keys DOMAINS_distinct)
  from agg have mem: "(d, agg) \<in> set ?A" by (rule map_of_SomeD)
  have only: "\<And>e. e \<in> set ?A \<Longrightarrow> fst e = d \<Longrightarrow> e = (d, agg)"
  proof -
    fix e assume "e \<in> set ?A" "fst e = d"
    then have "(d, snd e) \<in> set ?A" by (metis prod.collapse)
    with dk have "map_of ?A d = Some (snd e)" by simp
    with agg \<open>fst e = d\<close> show "e = (d, agg)" by (metis option.inject prod.collapse)
  qed
  have due: "birth_due ?L ?P (d, agg) \<longleftrightarrow> ?P d + 1 \<ge> 5"
    using dL crit by (simp add: birth_due_def CONSECUTIVE_DAYS_BIRTH_def)
  have pd: "proto_god_days gs' d = (if ?P d + 1 \<ge> 5 then 0 else ?P d + 1)"
    unfolding pa using agg dL crit by (simp add: proto_after_def CONSECUTIVE_DAYS_BIRTH_def)
  have lv: "living_domains_of (gods_table (gs_db gs')) = ?L \<union> living_domains_of born"
    unfolding tb by (rule living_append)
  show ?thesis
  proof (cases "?P d + 1 \<ge> 5")
    case True
    with due mem have "(d, agg) \<in> set (filter (birth_due ?L ?P) ?A)" by simp
    from newborn_exists [OF la this] obtain b where b: "b \<in> set born" "newborn day d b"
      by auto
    then have bd: "god_domain b = d" "god_alive b" "birth_day b = day"
      by (simp_all add: newborn_def)
    from b(1) bd have "d \<in> living_domains_of born"
      by (auto simp: living_domains_of_def)
    with b bd pd True lv tb pg ok' show ?thesis by auto
  next
    case False
    have "d \<notin> living_domains_of born"
    proof
      assume "d \<in> living_domains_of born"
      then obtain b where b: "b \<in> set born" "god_domain b = d"
        by (auto simp: living_domains_of_def)
      from newborn_list [OF la b(1)] b(2) obtain e where
        e: "e \<in> set ?A" "birth_due ?L ?P e" "fst e = d" by auto
      from only [OF e(1) e(3)] e(2) due False show False by simp
    qed
    with dL lv pd False pg ok' show ?thesis by auto
  qed
qed

lemma streak_head: "calls \<noteq> [] \<Longrightarrow> streak ops P gs calls \<Longrightarrow> \<exists>A. P gs A"
  by (cases calls) auto

lemma ascending_rng: "ascending d (gs\<lparr> gs_rng := g \<rparr>) A = ascending d gs A"
  by (simp add: ascending_def)

lemma ascending_streak:
  assumes "rest \<noteq> []"
  shows "god_system_ok gs \<Longrightarrow> streak ops (ascending d) gs (calls @ rest) \<Longrightarrow>
         god_system_ok (gods_run ops gs calls) \<and>
         streak ops (ascending d) (gods_run ops gs calls) rest \<and>
         proto_god_days (gods_run ops gs calls) d = proto_god_days gs d + int (length calls)"
proof (induction calls arbitrary: gs)
  case Nil
  then show ?case by simp
next
  case (Cons c calls)
  obtain A day g where c: "c = (A, day, g)" by (cases c)
  let ?gs = "gs\<lparr> gs_rng := g \<rparr>"
  let ?gs1 = "fst (process_aggregations ops A day ?gs)"
  from Cons.prems(2) c have asc: "ascending d ?gs A"
    and st1: "streak ops (ascending d) ?gs1 (calls @ rest)"
    by (simp_all add: ascending_rng)
  from Cons.prems(1) have ok: "god_system_ok ?gs" by (simp add: rng_ok)
  from ascending_step [OF ok asc, of ops day] obtain gs' born faded where
    pg: "process_aggregations ops A day ?gs = (gs', Inr (born, faded))" and ok': "god_system_ok gs'"
    and cases: "if proto_god_days ?gs d + 1 \<ge> 5
      then (\<exists>b \<in> set born. god_domain b = d \<and> god_alive b \<and> birth_day b = day \<and>
                            b \<in> set (gods_table (gs_db gs'))) \<and>
           proto_god_days gs' d = 0 \<and> d \<in> living_domains_of (gods_table (gs_db gs'))
      else proto_god_days gs' d = proto_god_days ?gs d + 1 \<and>
           d \<notin> living_domains_of (gods_table (gs_db gs'))"
    by blast
  from pg have gs1: "?gs1 = gs'" by simp
  from assms have "calls @ rest \<noteq> []" by simp
  from streak_head [OF this st1] obtain A2 where "ascending d ?gs1 A2" ..
  then have "d \<notin> living_domains_of (gods_table (gs_db gs'))"
    by (simp add: gs1 ascending_def)
  with cases have p1: "proto_god_days gs' d = proto_god_days gs d + 1"
    by (auto split: if_splits)
  from Cons.IH [OF _ st1] ok' gs1
  have "god_system_ok (gods_run ops gs' calls) \<and>
         streak ops (ascending d) (gods_run ops gs' calls) rest \<and>
         proto_god_days (gods_run ops gs' calls) d = proto_god_days gs' d + int (length calls)"
    by simp
  with p1 c gs1 show ?case by simp
qed

lemma birth_on_fifth_day:
  assumes ok: "god_system_ok gs0" and len: "length calls = 4"
    and st: "streak ops (ascending d) gs0 (calls @ [(A, day, g)])"
  shows "\<exists>gs' born faded b.
           process_aggregations ops A day ((gods_run ops gs0 calls)\<lparr> gs_rng := g \<rparr>) =
             (gs', Inr (born, faded)) \<and>
           b \<in> set born \<and> god_domain b = d \<and> god_alive b \<and> birth_day b = day \<and>
           b \<in> set (gods_table (gs_db gs')) \<and> proto_god_days gs' d = 0"
proof -
  let ?gs4 = "gods_run ops gs0 calls"
  from ascending_streak [OF _ ok st] len
  have ok4: "god_system_ok ?gs4" and asc: "ascending d ?gs4 A"
    and p4: "proto_god_days ?gs4 d = proto_god_days gs0 d + 4"
    by simp_all
  from ok have "0 \<le> proto_god_days gs0 d" by (simp add: god_system_ok_def)
  with p4 have due: "proto_god_days (?gs4\<lparr> gs_rng := g \<rparr>) d + 1 \<ge> 5" by simp
  from ok4 have okg: "god_system_ok (?gs4\<lparr> gs_rng := g \<rparr>)" by (simp add: rng_ok)
  from asc have ascg: "ascending d (?gs4\<lparr> gs_rng := g \<rparr>) A" by (simp add: ascending_rng)
  from ascending_step [OF okg ascg, of ops day] due show ?thesis
    by (auto split: if_splits)
qed


lemma waning_rng: "waning i (gs\<lparr> gs_rng := g \<rparr>) A = waning i gs A"
  by (simp add: waning_def)

lemma check_fade_weak_day:
  assumes "average_belief agg < 3/10"
  shows "if consecutive_weak_days r + 1 \<ge> 7
         then \<not> god_alive (fst (check_fade agg day r)) \<and>
              death_day (fst (check_fade agg day r)) = Some day \<and> snd (check_fade agg day r)
         else god_alive (fst (check_fade agg day r)) = god_alive r \<and>
              consecutive_weak_days (fst (check_fade agg day r)) = consecutive_weak_days r + 1 \<and>
              \<not> snd (check_fade agg day r)"
  using assms
  by (simp add: check_fade_def Let_def update_strength_def fade_def FADE_THRESHOLD_def
      CONSECUTIVE_DAYS_FADE_def)

lemma waning_step:
  assumes ok: "god_system_ok gs" and r: "r \<in> set (gods_table (gs_db gs))"
    and i: "god_id r = Some i" and wan: "waning i gs A"
  shows "\<exists>gs' born faded r'.
     process_aggregations ops A day gs = (gs', Inr (born, faded)) \<and> god_system_ok gs' \<and>
     r' \<in> set (gods_table (gs_db gs')) \<and> god_id r' = Some i \<and>
     (if consecutive_weak_days r + 1 \<ge> 7
      then \<not> god_alive r' \<and> death_day r' = Some day \<and> r' \<in> set faded
      else god_alive r' \<and> consecutive_weak_days r' = consecutive_weak_days r + 1)"
proof -
  let ?A = "A"
  let ?T = "gods_table (gs_db gs)"
  let ?T1 = "map (\<lambda>r. if god_alive r then faded_row ?A day r else r) ?T"
  let ?F = "map (faded_row ?A day) (filter (fades ?A day) (filter god_alive ?T))"
  from wan have keys: "map fst A = DOMAINS" by (simp add: waning_def)
  from process_aggregations_ok [OF ok keys, of ops day] obtain gs' born where
    pg: "process_aggregations ops A day gs = (gs', Inr (born, ?F))"
    and tb: "gods_table (gs_db gs') = ?T1 @ born"
    and ok': "god_system_ok gs'"
    by blast
  from ok have k: "gods_keyed ?T" by (simp add: god_system_ok_def gods_wellformed_def)
  from wan obtain r0 agg where r0: "r0 \<in> set ?T" "god_id r0 = Some i" "god_alive r0"
    "map_of ?A (god_domain r0) = Some agg" "average_belief agg < 3/10"
    by (auto simp: waning_def FADE_THRESHOLD_def split: option.splits)
  from keyed_same_id [OF k r0(1) r] r0(2) i have "r0 = r" by simp
  with r0 have alive: "god_alive r" and agg: "map_of ?A (god_domain r) = Some agg"
    and weak: "average_belief agg < 3/10" by simp_all
  let ?r' = "faded_row ?A day r"
  have fr: "?r' = fst (check_fade agg day r)" by (simp add: faded_row_def agg)
  have fd: "fades ?A day r = snd (check_fade agg day r)" by (simp add: fades_def agg)
  from r alive have "?r' \<in> set ?T1" by force
  then have in': "?r' \<in> set (gods_table (gs_db gs'))" by (simp add: tb)
  have id': "god_id ?r' = Some i" using i by simp
  note cf = check_fade_weak_day [OF weak, of r day]
  show ?thesis
  proof (cases "consecutive_weak_days r + 1 \<ge> 7")
    case True
    with cf fr fd have d: "\<not> god_alive ?r'" "death_day ?r' = Some day" "fades ?A day r"
      by simp_all
    from r alive d(3) have inF: "?r' \<in> set ?F" by simp
    from True d inF have c: "if consecutive_weak_days r + 1 \<ge> 7
      then \<not> god_alive ?r' \<and> death_day ?r' = Some day \<and> ?r' \<in> set ?F
      else god_alive ?r' \<and> consecutive_weak_days ?r' = consecutive_weak_days r + 1"
      by simp
    from pg ok' in' id' c show ?thesis by blast
  next
    case False
    with cf fr alive have "god_alive ?r'"
      "consecutive_weak_days ?r' = consecutive_weak_days r + 1" by simp_all
    with False have c: "if consecutive_weak_days r + 1 \<ge> 7
      then \<not> god_alive ?r' \<and> death_day ?r' = Some day \<and> ?r' \<in> set ?F
      else god_alive ?r' \<and> consecutive_weak_days ?r' = consecutive_weak_days r + 1"
      by simp
    from pg ok' in' id' c show ?thesis by blast
  qed
qed

lemma waning_streak:
  assumes "rest \<noteq> []"
  shows "god_system_ok gs \<Longrightarrow> streak ops (waning i) gs (calls @ rest) \<Longrightarrow>
         r \<in> set (gods_table (gs_db gs)) \<Longrightarrow> god_id r = Some i \<Longrightarrow>
         \<exists>r'. god_system_ok (gods_run ops gs calls) \<and>
              streak ops (waning i) (gods_run ops gs calls) rest \<and>
              r' \<in> set (gods_table (gs_db (gods_run ops gs calls))) \<and> god_id r' = Some i \<and>
              consecutive_weak_days r' = consecutive_weak_days r + int (length calls)"
proof (induction calls arbitrary: gs r)
  case Nil
  then show ?case by auto
next
  case (Cons c calls)
  obtain A day g where c: "c = (A, day, g)" by (cases c)
  let ?gs = "gs\<lparr> gs_rng := g \<rparr>"
  let ?gs1 = "fst (process_aggregations ops A day ?gs)"
  from Cons.prems(2) c have wan: "waning i ?gs A"
    and st1: "streak ops (waning i) ?gs1 (calls @ rest)"
    by (simp_all add: waning_rng)
  from Cons.prems(1) have ok: "god_system_ok ?gs" by (simp add: rng_ok)
  from Cons.prems(3) have rin: "r \<in> set (gods_table (gs_db ?gs))" by simp
  from waning_step [OF ok rin Cons.prems(4) wan, of ops day] obtain gs' born faded r1 where
    pg: "process_aggregations ops A day ?gs = (gs', Inr (born, faded))" and ok': "god_system_ok gs'"
    and r1: "r1 \<in> set (gods_table (gs_db gs'))" "god_id r1 = Some i"
    and cases: "if consecutive_weak_days r + 1 \<ge> 7
      then \<not> god_alive r1 \<and> death_day r1 = Some day \<and> r1 \<in> set faded
      else god_alive r1 \<and> consecutive_weak_days r1 = consecutive_weak_days r + 1"
    by blast
  from pg have gs1: "?gs1 = gs'" by simp
  from assms have "calls @ rest \<noteq> []" by simp
  from streak_head [OF this st1] obtain A2 where "waning i ?gs1 A2" ..
  then obtain r2 where r2: "r2 \<in> set (gods_table (gs_db gs'))" "god_id r2 = Some i" "god_alive r2"
    by (auto simp: gs1 waning_def)
  from ok' have k': "gods_keyed (gods_table (gs_db gs'))"
    by (simp add: god_system_ok_def gods_wellformed_def)
  from keyed_same_id [OF k' r2(1) r1(1)] r2(2) r1(2) have "r2 = r1" by simp
  with r2(3) cases have w1: "consecutive_weak_days r1 = consecutive_weak_days r + 1"
    by (auto split: if_splits)
  from Cons.IH [OF _ _ r1] ok' st1 gs1 obtain r' where
    "god_system_ok (gods_run ops gs' calls)"
    "streak ops (waning i) (gods_run ops gs' calls) rest"
    "r' \<in> set (gods_table (gs_db (gods_run ops gs' calls)))" "god_id r' = Some i"
    "consecutive_weak_days r' = consecutive_weak_days r1 + int (length calls)"
    by auto
  with w1 c gs1 show ?case by auto
qed

lemma fade_on_seventh_day:
  assumes ok: "god_system_ok gs0" and len: "length calls = 6"
    and st: "streak ops (waning i) gs0 (calls @ [(A, day, g)])"
  shows "\<exists>gs' born faded r.
           process_aggregations ops A day ((gods_run ops gs0 calls)\<lparr> gs_rng := g \<rparr>) =
             (gs', Inr (born, faded)) \<and>
           r \<in> set (gods_table (gs_db gs')) \<and> god_id r = Some i \<and>
           \<not> god_alive r \<and> death_day r = Some day \<and> r \<in> set faded"
proof -
  let ?gs6 = "gods_run ops gs0 calls"
  have "calls @ [(A, day, g)] \<noteq> []" by simp
  from streak_head [OF this st] obtain A0 where "waning i gs0 A0" ..
  then obtain r0 where r0: "r0 \<in> set (gods_table (gs_db gs0))" "god_id r0 = Some i"
    by (auto simp: waning_def)
  from ok r0(1) have w0: "0 \<le> consecutive_weak_days r0"
    by (simp add: god_system_ok_def gods_wellformed_def)
  from waning_streak [OF _ ok st r0] len obtain r6 where
    ok6: "god_system_ok ?gs6" and wan: "waning i ?gs6 A"
    and r6: "r6 \<in> set (gods_table (gs_db ?gs6))" "god_id r6 = Some i"
    and w6: "consecutive_weak_days r6 = consecutive_weak_days r0 + 6"
    by auto
  from w0 w6 have due: "consecutive_weak_days r6 + 1 \<ge> 7" by simp
  from ok6 have okg: "god_system_ok (?gs6\<lparr> gs_rng := g \<rparr>)" by (simp add: rng_ok)
  from wan have wang: "waning i (?gs6\<lparr> gs_rng := g \<rparr>) A" by (simp add: waning_rng)
  from r6(1) have rin: "r6 \<in> set (gods_table (gs_db (?gs6\<lparr> gs_rng := g \<rparr>)))" by simp
  from waning_step [OF okg rin r6(2) wang, of ops day] due show ?thesis
    by (auto split: if_splits)
qed

text \<open>
  C2. Birth and fade thresholds, on a god system as the program leaves it (\<open>god_system_ok\<close>)
  and a sequence of consecutive calls of \<^verbatim>\<open>process_gods\<close>.

  Birth: if each of five consecutive calls finds the domain \<open>d\<close> without living god and
  a population whose mean belief in \<open>d\<close> is at least 0.6 with coherence at least 0.5, then
  the fifth call returns, and among the gods it reports born there is a living god of
  domain \<open>d\<close> with \<open>birth_day\<close> the day of that call, which is in the gods table; the
  ascending counter of \<open>d\<close> is 0 after the call.

  Fade: if each of seven consecutive calls finds the god with rowid \<open>i\<close> alive and a
  population whose mean belief in that god's domain is below 0.3, then the seventh call
  returns, and after it the row of that god has \<open>alive\<close> false and \<open>death_day\<close> the day of
  that call, and the god is among those reported faded.
\<close>

theorem birth_and_fade_thresholds:
  assumes "god_system_ok gs0"
  shows "(length calls = 4 \<longrightarrow> streak ops (ascending d) gs0 (calls @ [(A, day, g)]) \<longrightarrow>
            (\<exists>gs' born faded b.
               process_aggregations ops A day ((gods_run ops gs0 calls)\<lparr> gs_rng := g \<rparr>) =
                 (gs', Inr (born, faded)) \<and>
               b \<in> set born \<and> god_domain b = d \<and> god_alive b \<and> birth_day b = day \<and>
               b \<in> set (gods_table (gs_db gs')) \<and> proto_god_days gs' d = 0)) \<and>
         (length calls' = 6 \<longrightarrow> streak ops (waning i) gs0 (calls' @ [(A', day', g')]) \<longrightarrow>
            (\<exists>gs' born faded r.
               process_aggregations ops A' day' ((gods_run ops gs0 calls')\<lparr> gs_rng := g' \<rparr>) =
                 (gs', Inr (born, faded)) \<and>
               r \<in> set (gods_table (gs_db gs')) \<and> god_id r = Some i \<and>
               \<not> god_alive r \<and> death_day r = Some day' \<and> r \<in> set faded))"
  using birth_on_fifth_day [OF assms, of calls ops d A day g]
    fade_on_seventh_day [OF assms, of calls' ops i A' day' g']
  by blast

end
